theory Spec2Isabelle
  imports Complex_Main "HOL-Library.Code_Target_Nat" "HOL-Library.List_Lexorder" "HOL-Library.Product_Lexorder"
    "HOL-Library.Multiset"
begin

section \<open>The loader of the 1925 meteorological text files\<close>

text \<open>
  A shallow embedding of \<^verbatim>\<open>scripts/loader.py\<close>. Every function of the loader is a HOL
  function of the same name (without the leading underscore, which HOL identifiers do
  not allow); every exception the Python can raise is a value \<open>Inl e\<close> of a sum type.

  Conventions of the model:
  \<^item> A Python \<^verbatim>\<open>str\<close> is the list of its Unicode code points, each a natural number
    (\<open>ustring\<close>); the files are opened with \<^verbatim>\<open>encoding="utf-8"\<close>, so the loader sees the
    decoded text. A literal of the source is written \<open>u ''...''\<close>, the code points of an
    ASCII text. The character classes are those of Python 3.11 (Unicode 14): whitespace
    is what \<^verbatim>\<open>str.isspace\<close> accepts and \<^verbatim>\<open>str.strip\<close> removes, a digit is a decimal digit of
    any script, which is what \<^verbatim>\<open>\d\<close> matches and \<^verbatim>\<open>int\<close> and \<^verbatim>\<open>float\<close> read.
  \<^item> A file is its path and the list of its lines, each line as iteration over the open
    file yields it (with its trailing newline when it has one).
  \<^item> A Python \<^verbatim>\<open>float\<close> read from a decimal numeral is the exact rational value of the
    numeral; the missing float (NaN) is \<open>None\<close>.
  \<^item> A timestamp is the \<^verbatim>\<open>datetime\<close> it is made from, to the minute; the bounds that pandas
    puts on the years of a timestamp are not modelled.
  \<^item> A pandas table is its column labels and its rows. The operations of pandas that the
    loader calls are modelled by what they do to the tables the loader builds; column
    labels are taken to be distinct, as the loader addresses columns by label.
\<close>

subsection \<open>Text\<close>

type_synonym ustring = "nat list"

text \<open>The code point of an ASCII character, and the code points of an ASCII text.\<close>

definition cp :: "char \<Rightarrow> nat" where
  "cp c = of_char c"

definition u :: "string \<Rightarrow> ustring" where
  "u s = map cp s"

subsection \<open>Errors\<close>

datatype error =
    ValueError ustring
  | IndexError
  | TypeError ustring
  | KeyError ustring

subsection \<open>Python string primitives\<close>

definition TAB :: nat where
  "TAB = 9"

definition NEWLINE :: nat where
  "NEWLINE = 10"

text \<open>
  \<^verbatim>\<open>str.isspace\<close>, the characters \<^verbatim>\<open>str.strip\<close> removes: TAB, LF, VT, FF, CR, the separators
  U+001C to U+001F, the space, NEL (U+0085), the no-break space (U+00A0), the Ogham space
  (U+1680), the spaces U+2000 to U+200A, the line and paragraph separators (U+2028,
  U+2029), the narrow no-break space (U+202F), the medium mathematical space (U+205F)
  and the ideographic space (U+3000).
\<close>

definition WHITESPACE :: "nat list" where
  "WHITESPACE =
    [9, 10, 11, 12, 13, 28, 29, 30, 31, 32, 133, 160, 5760,
     8192, 8193, 8194, 8195, 8196, 8197, 8198, 8199, 8200, 8201, 8202,
     8232, 8233, 8239, 8287, 12288]"

definition isspace :: "nat \<Rightarrow> bool" where
  "isspace c = (c \<in> set WHITESPACE)"

text \<open>
  The decimal digits of Unicode 14 (category Nd) stand in 66 runs of ten consecutive
  code points, the digits 0 to 9 of one script in their order; \<open>DIGIT_ZEROS\<close> lists the
  code point of the zero of every run, from the ASCII digits (48) and the Arabic-Indic
  digits (1632) to the segmented digits (130032). The class \<^verbatim>\<open>\d\<close> of a regular
  expression on a \<^verbatim>\<open>str\<close> is this category, and \<^verbatim>\<open>int\<close> and \<^verbatim>\<open>float\<close> read each such digit
  as its value.
\<close>

definition DIGIT_ZEROS :: "nat list" where
  "DIGIT_ZEROS =
    [48, 1632, 1776, 1984, 2406, 2534, 2662, 2790, 2918, 3046, 3174, 3302, 3430, 3558,
     3664, 3792, 3872, 4160, 4240, 6112, 6160, 6470, 6608, 6784, 6800, 6992, 7088, 7232,
     7248, 42528, 43216, 43264, 43472, 43504, 43600, 44016, 65296, 66720, 68912, 69734,
     69872, 69942, 70096, 70384, 70736, 70864, 71248, 71360, 71472, 71904, 72016, 72784,
     73040, 73120, 92768, 92864, 93008, 120782, 120792, 120802, 120812, 120822, 123200,
     123632, 125264, 130032]"

text \<open>The zero of the run of digits that holds \<open>c\<close>, if \<open>c\<close> is a digit.\<close>

definition digit_zero :: "nat \<Rightarrow> nat option" where
  "digit_zero c = find (\<lambda>z. z \<le> c \<and> c < z + 10) DIGIT_ZEROS"

definition isdigit :: "nat \<Rightarrow> bool" where
  "isdigit c = (digit_zero c \<noteq> None)"

definition digit_val :: "nat \<Rightarrow> nat" where
  "digit_val c = (case digit_zero c of Some z \<Rightarrow> c - z | None \<Rightarrow> 0)"

text \<open>\<^verbatim>\<open>int(ds)\<close> for a string of digits, most significant first.\<close>

definition digits_val :: "ustring \<Rightarrow> nat" where
  "digits_val ds = foldl (\<lambda>acc c. 10 * acc + digit_val c) 0 ds"

definition lstrip :: "ustring \<Rightarrow> ustring" where
  "lstrip s = dropWhile isspace s"

definition rstrip :: "ustring \<Rightarrow> ustring" where
  "rstrip s = rev (dropWhile isspace (rev s))"

text \<open>\<^verbatim>\<open>s.strip()\<close>\<close>

definition strip :: "ustring \<Rightarrow> ustring" where
  "strip s = rstrip (lstrip s)"

text \<open>\<^verbatim>\<open>s.rstrip("\n")\<close>\<close>

definition rstrip_newline :: "ustring \<Rightarrow> ustring" where
  "rstrip_newline s = rev (dropWhile (\<lambda>c. c = NEWLINE) (rev s))"

text \<open>\<^verbatim>\<open>s.startswith(p)\<close>\<close>

definition startswith :: "ustring \<Rightarrow> ustring \<Rightarrow> bool" where
  "startswith p s = (take (length p) s = p)"

text \<open>\<^verbatim>\<open>sub in s\<close>\<close>

fun contains :: "ustring \<Rightarrow> ustring \<Rightarrow> bool" where
  "contains sub [] = (sub = [])"
| "contains sub (c # cs) = (startswith sub (c # cs) \<or> contains sub cs)"

text \<open>
  \<^verbatim>\<open>s.lower()\<close>, as far as the loader needs it: the loader only asks whether the
  lower-cased text is the zero word. The ASCII capitals are lowered; any other code
  point is left as it is. In Unicode 14 no code point other than the letters of the
  word and their ASCII capitals has a lower case that is a piece of the word, so the
  test gives what Python's \<^verbatim>\<open>lower\<close> gives.
\<close>

definition lower_char :: "nat \<Rightarrow> nat" where
  "lower_char c = (if (cp (CHR ''A'')) \<le> c \<and> c \<le> (cp (CHR ''Z'')) then c + 32 else c)"

definition lower :: "ustring \<Rightarrow> ustring" where
  "lower s = map lower_char s"

text \<open>
  \<^verbatim>\<open>s.replace(old, new)\<close> for a non-empty \<open>old\<close> (every call of the loader passes a
  non-empty literal): the occurrences are found left to right and do not overlap.
\<close>

function replace :: "ustring \<Rightarrow> ustring \<Rightarrow> ustring \<Rightarrow> ustring" where
  "replace old new [] = []"
| "replace old new (c # cs) =
     (if old \<noteq> [] \<and> startswith old (c # cs)
      then new @ replace old new (drop (length old) (c # cs))
      else c # replace old new cs)"
  by pat_completeness auto
termination
  by (relation "measure (\<lambda>(old, new, s). length s)") (auto simp: neq_Nil_conv)

text \<open>
  \<^verbatim>\<open>s.split(sep)\<close> for a non-empty separator: always at least one part.
\<close>

function split :: "ustring \<Rightarrow> ustring \<Rightarrow> ustring list" where
  "split sep [] = [[]]"
| "split sep (c # cs) =
     (if sep \<noteq> [] \<and> startswith sep (c # cs)
      then [] # split sep (drop (length sep) (c # cs))
      else (case split sep cs of
              p # ps \<Rightarrow> (c # p) # ps
            | [] \<Rightarrow> [[c]]))"
  by pat_completeness auto
termination
  by (relation "measure (\<lambda>(sep, s). length s)") (auto simp: neq_Nil_conv)

text \<open>\<^verbatim>\<open>s.split(sep, 1)\<close>: split at the first occurrence only.\<close>

fun split1 :: "ustring \<Rightarrow> ustring \<Rightarrow> ustring list" where
  "split1 sep [] = [[]]"
| "split1 sep (c # cs) =
     (if sep \<noteq> [] \<and> startswith sep (c # cs)
      then [[], drop (length sep) (c # cs)]
      else (case split1 sep cs of
              p # ps \<Rightarrow> (c # p) # ps
            | [] \<Rightarrow> [[c]]))"

text \<open>\<^verbatim>\<open>sep.join(parts)\<close>\<close>

fun join :: "ustring \<Rightarrow> ustring list \<Rightarrow> ustring" where
  "join sep [] = []"
| "join sep [p] = p"
| "join sep (p # q # ps) = p @ sep @ join sep (q # ps)"

text \<open>\<^verbatim>\<open>xs[1]\<close>, which raises IndexError on a list shorter than two.\<close>

fun index1 :: "'a list \<Rightarrow> error + 'a" where
  "index1 (x # y # ys) = Inr y"
| "index1 xs = Inl IndexError"

subsection \<open>Constants\<close>

text \<open>The em-dash U+2014.\<close>

definition EM_DASH :: ustring where
  "EM_DASH = [8212]"

definition NA_TOKENS :: "ustring list" where
  "NA_TOKENS = [[], u ''NA'', EM_DASH, u ''-999'']"

definition WORD_ZERO :: "ustring list" where
  "WORD_ZERO = [u ''nulle'', u ''NULLE'']"

definition KEEP_COLS :: "ustring list" where
  "KEEP_COLS =
    [u ''station'', u ''timestamp'', u ''date'', u ''time'', u ''t_max_c'', u ''t_min_c'',
     u ''precip_24h_mm'', u ''precip_type'', u ''present_weather_code'', u ''notes'']"

subsection \<open>Header and separator detection\<close>

text \<open>
  \<^verbatim>\<open>_detect_separator\<close>: the payload is the text after the first \<^verbatim>\<open>fields=\<close>, stripped.
\<close>

definition detect_separator :: "ustring \<Rightarrow> error + ustring" where
  "detect_separator fields_line =
     (case index1 (split1 (u ''fields='') fields_line) of
        Inl e \<Rightarrow> Inl e
      | Inr rest \<Rightarrow>
          (let payload = strip rest in
           if contains [TAB] payload then Inr [TAB]
           else (case filter (\<lambda>sep. contains sep payload) [u ''|'', u '';'', u '','']  of
                   sep # _ \<Rightarrow> Inr sep
                 | [] \<Rightarrow> Inr (u '',''))))"

text \<open>
  A path is the string \<^verbatim>\<open>str(path)\<close> of a normalised POSIX path. \<^verbatim>\<open>path.name\<close> is its
  final component, \<^verbatim>\<open>path.stem\<close> the name without its last suffix (pathlib's rule: the
  last dot counts when it is neither the first nor the last character of the name).
\<close>

type_synonym path = ustring

definition path_name :: "path \<Rightarrow> ustring" where
  "path_name p = rev (takeWhile (\<lambda>c. c \<noteq> (cp (CHR ''/''))) (rev p))"

definition path_stem :: "path \<Rightarrow> ustring" where
  "path_stem p =
     (let name = path_name p;
          after = takeWhile (\<lambda>c. c \<noteq> (cp (CHR ''.''))) (rev name)
      in if length after < length name \<and> after \<noteq> [] \<and> Suc (length after) < length name
         then take (length name - Suc (length after)) name
         else name)"

text \<open>
  The loop of \<^verbatim>\<open>_read_header\<close> over the lines of the file, with the two variables it
  assigns: it returns \<open>(station_name, fields_line)\<close> as they are when the loop ends.
\<close>

fun header_loop :: "ustring list \<Rightarrow> ustring option \<Rightarrow> error + (ustring option \<times> ustring option)" where
  "header_loop [] station_name = Inr (station_name, None)"
| "header_loop (line # rest) station_name =
     (if \<not> startswith (u ''#'') line then Inr (station_name, None)
      else
        (case (if contains (u ''station_name='') line
               then map_sum id Some (index1 (split (u ''station_name='') (strip line)))
               else Inr station_name) of
           Inl e \<Rightarrow> Inl e
         | Inr station_name' \<Rightarrow>
             if startswith (u ''# fields='') line then Inr (station_name', Some (strip line))
             else header_loop rest station_name'))"

definition missing_header :: "path \<Rightarrow> error" where
  "missing_header p = ValueError (u ''Missing '' @ [cp (CHR 0x27)] @ (u ''# fields='') @ [cp (CHR 0x27)] @ (u '' header in '') @ p)"

text \<open>\<^verbatim>\<open>_read_header\<close>: \<open>(station, separator, columns)\<close>, or the error raised.\<close>

definition read_header :: "path \<Rightarrow> ustring list \<Rightarrow> error + (ustring \<times> ustring \<times> ustring list)" where
  "read_header p lines =
     (case header_loop lines None of
        Inl e \<Rightarrow> Inl e
      | Inr (station_name, None) \<Rightarrow> Inl (missing_header p)
      | Inr (station_name, Some fields_line) \<Rightarrow>
          (case detect_separator fields_line of
             Inl e \<Rightarrow> Inl e
           | Inr sep \<Rightarrow>
               (case index1 (split1 (u ''fields='') fields_line) of
                  Inl e \<Rightarrow> Inl e
                | Inr payload \<Rightarrow>
                    Inr (case station_name of
                           None \<Rightarrow> path_stem p
                         | Some n \<Rightarrow> if n = [] then path_stem p else n,
                         sep, map strip (split sep payload)))))"

subsection \<open>Reading the rows\<close>

text \<open>
  \<^verbatim>\<open>re.sub(r"(?<=\d),(?=\d)", ".", line)\<close>: a comma between two digits becomes a point.
  The look-around reads the characters of the line itself, which the rewriting of an
  earlier comma does not change; \<open>prev\<close> is the character before the current one.
\<close>

fun decimal_commas :: "nat option \<Rightarrow> ustring \<Rightarrow> ustring" where
  "decimal_commas prev [] = []"
| "decimal_commas prev (c # cs) =
     (if c = (cp (CHR '','')) \<and> (case prev of Some d \<Rightarrow> isdigit d | None \<Rightarrow> False)
         \<and> (case cs of d # _ \<Rightarrow> isdigit d | [] \<Rightarrow> False)
      then (cp (CHR ''.'')) else c) # decimal_commas (Some c) cs"

text \<open>
  Python's slices \<^verbatim>\<open>xs[:k]\<close> and \<^verbatim>\<open>xs[k:]\<close>: a negative bound counts from the end (so
  \<^verbatim>\<open>parts[: len(cols) - 1]\<close> with no column would be \<^verbatim>\<open>parts[:-1]\<close>).
\<close>

definition slice_upto :: "int \<Rightarrow> 'a list \<Rightarrow> 'a list" where
  "slice_upto k xs = (if k < 0 then take (nat (int (length xs) + k)) xs else take (nat k) xs)"

definition slice_from :: "int \<Rightarrow> 'a list \<Rightarrow> 'a list" where
  "slice_from k xs = (if k < 0 then drop (nat (int (length xs) + k)) xs else drop (nat k) xs)"

text \<open>The body of the loop of \<^verbatim>\<open>_read_rows_raw\<close> for one line that is not a comment.\<close>

definition tokenize_line :: "ustring \<Rightarrow> ustring list \<Rightarrow> ustring \<Rightarrow> ustring list" where
  "tokenize_line sep cols line0 =
     (let line1 = rstrip_newline line0;
          line = (if sep = (u '','') then decimal_commas None line1 else line1);
          parts = split sep line
      in if length parts \<noteq> length cols then
           (if length parts > length cols
            then (let head = slice_upto (int (length cols) - 1) parts;
                      tail = join sep (slice_from (int (length cols) - 1) parts)
                  in head @ [tail])
            else parts @ replicate (length cols - length parts) [])
         else parts)"

subsection \<open>Tables\<close>

text \<open>
  The values a cell of a pandas table holds in the loader: the missing value (NaN, NaT
  and \<^verbatim>\<open><NA>\<close> alike), a string, a float, a nullable integer, a timestamp, and the date
  and the time of day of a timestamp.
\<close>

record datetime =
  year :: nat
  month :: nat
  day :: nat
  hour :: nat
  minute :: nat

datatype cell =
    NaN
  | Str ustring
  | Num rat
  | IntCode int
  | TS datetime
  | DateOf nat nat nat
  | TimeOf nat nat

text \<open>
  A \<^verbatim>\<open>DataFrame\<close>: the column labels in their order and the rows, each row holding one
  cell per column.
\<close>

record frame =
  columns :: "ustring list"
  rows :: "cell list list"

fun index_of :: "'a list \<Rightarrow> 'a \<Rightarrow> nat option" where
  "index_of [] k = None"
| "index_of (c # cs) k = (if c = k then Some 0 else map_option Suc (index_of cs k))"

text \<open>\<^verbatim>\<open>df.get(k)\<close>: the column, or None when the table has no such column.\<close>

definition get_col :: "frame \<Rightarrow> ustring \<Rightarrow> cell list option" where
  "get_col df k = map_option (\<lambda>i. map (\<lambda>r. r ! i) (rows df)) (index_of (columns df) k)"

text \<open>
  \<^verbatim>\<open>df[k] = vals\<close>: an existing column is overwritten where it stands, a new one is
  appended as the last column.
\<close>

definition set_col :: "ustring \<Rightarrow> cell list \<Rightarrow> frame \<Rightarrow> frame" where
  "set_col k vals df =
     (case index_of (columns df) k of
        Some i \<Rightarrow> df\<lparr>rows := map2 (\<lambda>r v. r[i := v]) (rows df) vals\<rparr>
      | None \<Rightarrow> \<lparr>columns = columns df @ [k], rows = map2 (\<lambda>r v. r @ [v]) (rows df) vals\<rparr>)"

text \<open>A scalar assigned to a column is repeated on every row.\<close>

definition broadcast :: "frame \<Rightarrow> cell \<Rightarrow> cell list" where
  "broadcast df v = replicate (length (rows df)) v"

text \<open>
  \<^verbatim>\<open>_read_rows_raw\<close>: one row for every line that does not start with \<^verbatim>\<open>#\<close>, in the order
  of the lines, under the declared columns.
\<close>

definition read_rows_raw :: "ustring list \<Rightarrow> ustring \<Rightarrow> ustring list \<Rightarrow> frame" where
  "read_rows_raw lines sep cols =
     \<lparr>columns = cols,
      rows = map (\<lambda>line. map Str (tokenize_line sep cols line))
                 (filter (\<lambda>line. \<not> startswith (u ''#'') line) lines)\<rparr>"

subsection \<open>Parsing dates\<close>

text \<open>
  \<^verbatim>\<open>datetime.strptime\<close> turns a format into a regular expression, one group for each
  directive, and matches it at the start of the text:
  \<^verbatim>\<open>%Y\<close> is \<^verbatim>\<open>\d\d\d\d\<close>, \<^verbatim>\<open>%m\<close> is \<^verbatim>\<open>1[0-2]|0[1-9]|[1-9]\<close> and
  \<^verbatim>\<open>%d\<close> is \<^verbatim>\<open>3[0-1]|[1-2]\d|0[1-9]|[1-9]| [1-9]\<close>.
  Each function below lists the ways its group matches a prefix of the text, in the
  order in which a backtracking matcher tries the alternatives, as the value read and
  the text that remains.
\<close>

datatype directive = Dir_Y | Dir_m | Dir_d | Lit nat

fun group_Y :: "ustring \<Rightarrow> (nat \<times> ustring) list" where
  "group_Y (a # b # c # d # rest) =
     (if isdigit a \<and> isdigit b \<and> isdigit c \<and> isdigit d
      then [(digits_val [a, b, c, d], rest)] else [])"
| "group_Y s = []"

definition two_chars :: "(nat \<Rightarrow> bool) \<Rightarrow> (nat \<Rightarrow> bool) \<Rightarrow> ustring \<Rightarrow> (nat \<times> ustring) list" where
  "two_chars P Q s =
     (case s of
        a # b # rest \<Rightarrow> if P a \<and> Q b then [(digits_val (filter isdigit [a, b]), rest)] else []
      | _ \<Rightarrow> [])"

definition one_char :: "(nat \<Rightarrow> bool) \<Rightarrow> ustring \<Rightarrow> (nat \<times> ustring) list" where
  "one_char P s =
     (case s of
        a # rest \<Rightarrow> if P a then [(digit_val a, rest)] else []
      | _ \<Rightarrow> [])"

definition nonzero_digit :: "nat \<Rightarrow> bool" where
  "nonzero_digit c = (c \<in> set (u ''123456789''))"

definition group_m :: "ustring \<Rightarrow> (nat \<times> ustring) list" where
  "group_m s =
     two_chars (\<lambda>c. c = (cp (CHR ''1''))) (\<lambda>c. c \<in> set (u ''012'')) s
     @ two_chars (\<lambda>c. c = (cp (CHR ''0''))) nonzero_digit s
     @ one_char nonzero_digit s"

definition group_d :: "ustring \<Rightarrow> (nat \<times> ustring) list" where
  "group_d s =
     two_chars (\<lambda>c. c = (cp (CHR ''3''))) (\<lambda>c. c \<in> set (u ''01'')) s
     @ two_chars (\<lambda>c. c \<in> set (u ''12'')) isdigit s
     @ two_chars (\<lambda>c. c = (cp (CHR ''0''))) nonzero_digit s
     @ one_char nonzero_digit s
     @ two_chars (\<lambda>c. c = (cp (CHR '' ''))) nonzero_digit s"

text \<open>
  All the matches of a format at the start of the text, in the matcher's order, each
  with the year, month and day read so far and the text that remains. The matcher
  returns the first one.
\<close>

fun re_match :: "directive list \<Rightarrow> ustring \<Rightarrow> nat \<times> nat \<times> nat \<Rightarrow> ((nat \<times> nat \<times> nat) \<times> ustring) list" where
  "re_match [] s ymd = [(ymd, s)]"
| "re_match (Dir_Y # ds) s (y, m, d) =
     concat (map (\<lambda>(v, rest). re_match ds rest (v, m, d)) (group_Y s))"
| "re_match (Dir_m # ds) s (y, m, d) =
     concat (map (\<lambda>(v, rest). re_match ds rest (y, v, d)) (group_m s))"
| "re_match (Dir_d # ds) s (y, m, d) =
     concat (map (\<lambda>(v, rest). re_match ds rest (y, m, v)) (group_d s))"
| "re_match (Lit c # ds) s ymd =
     (case s of
        x # rest \<Rightarrow> if x = c then re_match ds rest ymd else []
      | [] \<Rightarrow> [])"

definition is_leap :: "nat \<Rightarrow> bool" where
  "is_leap y = (y mod 4 = 0 \<and> (y mod 100 \<noteq> 0 \<or> y mod 400 = 0))"

definition days_in_month :: "nat \<Rightarrow> nat \<Rightarrow> nat" where
  "days_in_month y m =
     (if m = 2 then (if is_leap y then 29 else 28)
      else if m \<in> set [4, 6, 9, 11] then 30 else 31)"

text \<open>
  \<^verbatim>\<open>datetime.strptime(text, fmt)\<close>: ValueError when the format does not match, when text
  remains after the match, and when the year, month and day are not a date (the year 0,
  a day beyond the end of the month). A directive the format does not hold keeps the
  default of strptime: the year 1900, the month 1, the day 1.
\<close>

definition strptime :: "ustring \<Rightarrow> directive list \<Rightarrow> error + datetime" where
  "strptime text fmt =
     (case re_match fmt text (1900, 1, 1) of
        [] \<Rightarrow> Inl (ValueError (u ''time data does not match format''))
      | ((y, m, d), rest) # _ \<Rightarrow>
          if rest \<noteq> [] then Inl (ValueError (u ''unconverted data remains''))
          else if y < 1 then Inl (ValueError (u ''year is out of range''))
          else if m < 1 \<or> 12 < m then Inl (ValueError (u ''month must be in 1..12''))
          else if d < 1 \<or> days_in_month y m < d then Inl (ValueError (u ''day is out of range for month''))
          else Inr \<lparr>year = y, month = m, day = d, hour = 0, minute = 0\<rparr>)"

text \<open>
  The formats, in the order of \<^verbatim>\<open>_DATE_FORMATS\<close>:
  \<^verbatim>\<open>%Y-%m-%d\<close>, \<^verbatim>\<open>%d.%m.%Y\<close>, \<^verbatim>\<open>%Y/%m/%d\<close>, \<^verbatim>\<open>%d-%m-%Y\<close>, \<^verbatim>\<open>%m-%d-%Y\<close>, \<^verbatim>\<open>%Y.%m.%d\<close>, \<^verbatim>\<open>%m/%d/%Y\<close>.
\<close>

definition DATE_FORMATS :: "directive list list" where
  "DATE_FORMATS =
    [[Dir_Y, Lit (cp (CHR ''-'')), Dir_m, Lit (cp (CHR ''-'')), Dir_d],
     [Dir_d, Lit (cp (CHR ''.'')), Dir_m, Lit (cp (CHR ''.'')), Dir_Y],
     [Dir_Y, Lit (cp (CHR ''/'')), Dir_m, Lit (cp (CHR ''/'')), Dir_d],
     [Dir_d, Lit (cp (CHR ''-'')), Dir_m, Lit (cp (CHR ''-'')), Dir_Y],
     [Dir_m, Lit (cp (CHR ''-'')), Dir_d, Lit (cp (CHR ''-'')), Dir_Y],
     [Dir_Y, Lit (cp (CHR ''.'')), Dir_m, Lit (cp (CHR ''.'')), Dir_d],
     [Dir_m, Lit (cp (CHR ''/'')), Dir_d, Lit (cp (CHR ''/'')), Dir_Y]]"

text \<open>
  The loop over the formats: the first format that parses gives the date; a ValueError
  moves on to the next format; \<open>None\<close> when every format has failed.
\<close>

fun try_formats :: "directive list list \<Rightarrow> ustring \<Rightarrow> datetime option" where
  "try_formats [] date_part = None"
| "try_formats (fmt # fmts) date_part =
     (case strptime date_part fmt of
        Inr dt \<Rightarrow> Some dt
      | Inl e \<Rightarrow> try_formats fmts date_part)"

text \<open>
  \<^verbatim>\<open>re.search(r"(\d{1,2}):(\d{2})", text)\<close>. At one position the hour takes two digits
  when it can and one digit otherwise; the search returns the match at the leftmost
  position that has one.
\<close>

fun clock_at :: "ustring \<Rightarrow> (nat \<times> nat) option" where
  "clock_at s =
     (case s of
        a # b # c # d # e # _ \<Rightarrow>
          if isdigit a \<and> isdigit b \<and> c = (cp (CHR '':'')) \<and> isdigit d \<and> isdigit e
          then Some (digits_val [a, b], digits_val [d, e])
          else if isdigit a \<and> b = (cp (CHR '':'')) \<and> isdigit c \<and> isdigit d
          then Some (digits_val [a], digits_val [c, d])
          else None
      | [a, b, c, d] \<Rightarrow>
          if isdigit a \<and> b = (cp (CHR '':'')) \<and> isdigit c \<and> isdigit d
          then Some (digits_val [a], digits_val [c, d])
          else None
      | _ \<Rightarrow> None)"

fun search_clock :: "ustring \<Rightarrow> (nat \<times> nat) option" where
  "search_clock [] = None"
| "search_clock (c # cs) =
     (case clock_at (c # cs) of
        Some hm \<Rightarrow> Some hm
      | None \<Rightarrow> search_clock cs)"

text \<open>\<^verbatim>\<open>dt.replace(hour=h, minute=m)\<close>, which checks the hour first and then the minute.\<close>

definition replace_hour_minute :: "datetime \<Rightarrow> nat \<Rightarrow> nat \<Rightarrow> error + datetime" where
  "replace_hour_minute dt h m =
     (if 23 < h then Inl (ValueError (u ''hour must be in 0..23''))
      else if 59 < m then Inl (ValueError (u ''minute must be in 0..59''))
      else Inr (dt\<lparr>hour := h, minute := m\<rparr>))"

text \<open>
  \<^verbatim>\<open>_parse_date_any\<close>. The argument is a cell of the table, \<open>None\<close> the missing one
  (\<^verbatim>\<open>pd.isna\<close>); the result is a timestamp or \<open>None\<close> for NaT.
\<close>

definition parse_date_any :: "ustring option \<Rightarrow> error + datetime option" where
  "parse_date_any x =
     (case x of
        None \<Rightarrow> Inr None
      | Some s0 \<Rightarrow>
          (let s = strip s0;
               (date_part, time_part) =
                  (if contains (u '' '') s
                   then (case split1 (u '' '') s of
                           a # b # _ \<Rightarrow> (a, Some b)
                         | _ \<Rightarrow> (s, None))
                   else (s, None))
           in case try_formats DATE_FORMATS date_part of
                None \<Rightarrow> Inr None
              | Some dt \<Rightarrow>
                  (case time_part of
                     None \<Rightarrow> Inr (Some dt)
                   | Some t \<Rightarrow>
                       if t = [] then Inr (Some dt)
                       else (case search_clock t of
                               None \<Rightarrow> Inr (Some dt)
                             | Some (h, m) \<Rightarrow> map_sum id Some (replace_hour_minute dt h m)))))"

subsection \<open>Parsing messy floats\<close>

text \<open>
  The pattern \<^verbatim>\<open>-?\d+(?:\.\d+)?\<close> at the start of a text: an optional minus sign, the
  longest run of digits, which must not be empty, and then a point with the longest run
  of digits after it when that run is not empty. The result is the text matched.
  \<open>unsigned_at\<close> is the part of the pattern after the sign.
\<close>

definition unsigned_at :: "ustring \<Rightarrow> ustring option" where
  "unsigned_at r =
     (let ip = takeWhile isdigit r;
          after = dropWhile isdigit r;
          fp = (case after of
                  c # r' \<Rightarrow> if c = (cp (CHR ''.'')) \<and> takeWhile isdigit r' \<noteq> []
                            then c # takeWhile isdigit r' else []
                | [] \<Rightarrow> [])
      in if ip = [] then None else Some (ip @ fp))"

definition number_at :: "ustring \<Rightarrow> ustring option" where
  "number_at s =
     (case s of
        c # r \<Rightarrow> if c = (cp (CHR ''-'')) then map_option ((#) c) (unsigned_at r) else unsigned_at s
      | [] \<Rightarrow> None)"

text \<open>\<^verbatim>\<open>re.search(r"-?\d+(?:\.\d+)?", text)\<close>: the match at the leftmost position that has one.\<close>

fun search_number :: "ustring \<Rightarrow> ustring option" where
  "search_number [] = None"
| "search_number (c # cs) =
     (case number_at (c # cs) of
        Some m \<Rightarrow> Some m
      | None \<Rightarrow> search_number cs)"

text \<open>
  \<^verbatim>\<open>float(text)\<close> on a decimal numeral: an optional minus sign, digits, and optionally a
  point followed by digits. On any other text the model raises ValueError (Python's
  \<^verbatim>\<open>float\<close> accepts more spellings; the loader passes it a match of the pattern only).
  \<open>unsigned_float\<close> reads the numeral after the sign.
\<close>

definition unsigned_float :: "ustring \<Rightarrow> error + rat" where
  "unsigned_float r =
     (let ip = takeWhile isdigit r;
          after = dropWhile isdigit r;
          fp = (case after of
                  [] \<Rightarrow> Some []
                | c # r' \<Rightarrow> if c = (cp (CHR ''.'')) \<and> r' \<noteq> [] \<and> list_all isdigit r' then Some r' else None)
      in if ip = [] then Inl (ValueError (u ''could not convert string to float''))
         else (case fp of
                 None \<Rightarrow> Inl (ValueError (u ''could not convert string to float''))
               | Some f \<Rightarrow> Inr (of_nat (digits_val ip) + of_nat (digits_val f) / 10 ^ length f)))"

definition py_float :: "ustring \<Rightarrow> error + rat" where
  "py_float s =
     (case s of
        c # r \<Rightarrow> if c = (cp (CHR ''-'')) then map_sum id uminus (unsigned_float r) else unsigned_float s
      | [] \<Rightarrow> unsigned_float s)"

text \<open>
  \<^verbatim>\<open>_parse_float_messy\<close>. The argument is a cell, \<open>None\<close> the missing one; the result is
  a float or \<open>None\<close> for NaN.
\<close>

definition parse_float_messy :: "ustring option \<Rightarrow> error + rat option" where
  "parse_float_messy x =
     (case x of
        None \<Rightarrow> Inr None
      | Some s0 \<Rightarrow>
          (let s = strip s0 in
           if s \<in> set NA_TOKENS then Inr None
           else if lower s \<in> set WORD_ZERO then Inr (Some 0)
           else
             (let s' = replace (u '','') (u ''.'') (replace (u ''MM'') (u ''mm'') (replace (u '' mm'') [] s))
              in case search_number s' of
                   None \<Rightarrow> Inr None
                 | Some m \<Rightarrow> map_sum id Some (py_float m))))"

subsection \<open>Loading one file\<close>

text \<open>\<^verbatim>\<open>raw.replace({v: np.nan for v in NA_TOKENS})\<close>: a cell equal to a token becomes missing.\<close>

definition replace_na :: "frame \<Rightarrow> frame" where
  "replace_na df =
     df\<lparr>rows := map (map (\<lambda>c. case c of
                                  Str s \<Rightarrow> if s \<in> set NA_TOKENS then NaN else c
                                | _ \<Rightarrow> c)) (rows df)\<rparr>"

text \<open>The text of a cell for the parsers: \<open>None\<close> for a cell that \<^verbatim>\<open>pd.isna\<close> finds missing.\<close>

definition cell_text :: "cell \<Rightarrow> ustring option" where
  "cell_text c = (case c of Str s \<Rightarrow> Some s | _ \<Rightarrow> None)"

definition float_cell :: "rat option \<Rightarrow> cell" where
  "float_cell v = (case v of Some q \<Rightarrow> Num q | None \<Rightarrow> NaN)"

definition timestamp_cell :: "datetime option \<Rightarrow> cell" where
  "timestamp_cell v = (case v of Some dt \<Rightarrow> TS dt | None \<Rightarrow> NaN)"

text \<open>
  \<^verbatim>\<open>column.apply(f)\<close>: \<open>f\<close> on every cell from the first row on; an exception of \<open>f\<close>
  ends the loop and leaves \<^verbatim>\<open>apply\<close>.
\<close>

fun apply_col :: "(cell \<Rightarrow> error + cell) \<Rightarrow> cell list \<Rightarrow> error + cell list" where
  "apply_col f [] = Inr []"
| "apply_col f (c # cs) =
     (case f c of
        Inl e \<Rightarrow> Inl e
      | Inr v \<Rightarrow> (case apply_col f cs of
                    Inl e \<Rightarrow> Inl e
                  | Inr vs \<Rightarrow> Inr (v # vs)))"

text \<open>\<^verbatim>\<open>column.str.replace(",", ".", regex=False)\<close>: missing on a cell that is not a string.\<close>

definition str_replace_comma :: "cell \<Rightarrow> cell" where
  "str_replace_comma c = (case c of Str s \<Rightarrow> Str (replace (u '','') (u ''.'') s) | _ \<Rightarrow> NaN)"

text \<open>
  \<^verbatim>\<open>pd.to_numeric(column, errors="coerce")\<close> on one cell. How pandas reads a number from
  a text is not part of the loader: it is the parameter \<open>num\<close>, which gives \<open>None\<close> for a
  text pandas does not read as a number.
\<close>

definition to_numeric :: "(ustring \<Rightarrow> rat option) \<Rightarrow> cell \<Rightarrow> cell" where
  "to_numeric num c =
     (case c of
        Str s \<Rightarrow> float_cell (num s)
      | Num q \<Rightarrow> Num q
      | IntCode i \<Rightarrow> Num (of_int i)
      | _ \<Rightarrow> NaN)"

text \<open>The body of the loop over the numeric columns, for the column \<open>c\<close>.\<close>

definition coerce_column :: "(ustring \<Rightarrow> rat option) \<Rightarrow> ustring \<Rightarrow> frame \<Rightarrow> error + frame" where
  "coerce_column num c df =
     (case get_col df c of
        None \<Rightarrow> Inr df
      | Some col \<Rightarrow>
          if c = (u ''precip_24h_mm'')
          then (case apply_col (\<lambda>x. map_sum id float_cell (parse_float_messy (cell_text x))) col of
                  Inl e \<Rightarrow> Inl e
                | Inr vals \<Rightarrow> Inr (set_col c vals df))
          else Inr (set_col c (map (\<lambda>x. to_numeric num (str_replace_comma x)) col) df))"

fun coerce_columns :: "(ustring \<Rightarrow> rat option) \<Rightarrow> ustring list \<Rightarrow> frame \<Rightarrow> error + frame" where
  "coerce_columns num [] df = Inr df"
| "coerce_columns num (c # cs) df =
     (case coerce_column num c df of
        Inl e \<Rightarrow> Inl e
      | Inr df' \<Rightarrow> coerce_columns num cs df')"

text \<open>The timestamp column, from the column \<^verbatim>\<open>date\<close> when the file declares one.\<close>

definition add_timestamp :: "frame \<Rightarrow> error + frame" where
  "add_timestamp df =
     (case get_col df (u ''date'') of
        Some col \<Rightarrow>
          (case apply_col (\<lambda>x. map_sum id timestamp_cell (parse_date_any (cell_text x))) col of
             Inl e \<Rightarrow> Inl e
           | Inr vals \<Rightarrow> Inr (set_col (u ''timestamp'') vals df))
      | None \<Rightarrow> Inr (set_col (u ''timestamp'') (broadcast df NaN) df))"

text \<open>\<^verbatim>\<open>.dt.date\<close> and \<^verbatim>\<open>.dt.time\<close> of a timestamp cell; missing stays missing.\<close>

definition date_of :: "cell \<Rightarrow> cell" where
  "date_of c = (case c of TS dt \<Rightarrow> DateOf (year dt) (month dt) (day dt) | _ \<Rightarrow> NaN)"

definition time_of :: "cell \<Rightarrow> cell" where
  "time_of c = (case c of TS dt \<Rightarrow> TimeOf (hour dt) (minute dt) | _ \<Rightarrow> NaN)"

text \<open>\<^verbatim>\<open>df[k]\<close> for a column the table must have: KeyError otherwise.\<close>

definition the_col :: "frame \<Rightarrow> ustring \<Rightarrow> error + cell list" where
  "the_col df k = (case get_col df k of Some col \<Rightarrow> Inr col | None \<Rightarrow> Inl (KeyError k))"

text \<open>
  The table \<^verbatim>\<open>out\<close> as first built: one column for each canonical name other than
  \<^verbatim>\<open>timestamp\<close>, \<^verbatim>\<open>date\<close> and \<^verbatim>\<open>time\<close>, taken from \<^verbatim>\<open>df\<close> when \<^verbatim>\<open>df\<close> has it and missing on
  every row otherwise.
\<close>

definition assemble :: "frame \<Rightarrow> frame" where
  "assemble df =
     fold (\<lambda>k out. set_col k (case get_col df k of
                                Some col \<Rightarrow> col
                              | None \<Rightarrow> broadcast df NaN) out)
          (filter (\<lambda>k. k \<notin> set [u ''timestamp'', u ''date'', u ''time'']) KEEP_COLS)
          \<lparr>columns = [], rows = replicate (length (rows df)) []\<rparr>"

text \<open>\<^verbatim>\<open>round()\<close> of a float column: to the nearest whole number, a half to the even one.\<close>

definition round_half_even :: "rat \<Rightarrow> int" where
  "round_half_even q =
     (let f = \<lfloor>q\<rfloor>; d = q - of_int f
      in if d < 1 / 2 then f
         else if 1 / 2 < d then f + 1
         else if even f then f else f + 1)"

text \<open>
  The cast of the codes. \<^verbatim>\<open>df.get("present_weather_code")\<close> is the column, or None when
  the file declares none. On a column \<^verbatim>\<open>pd.to_numeric\<close> gives the floats, \<^verbatim>\<open>round\<close> rounds
  them and \<^verbatim>\<open>astype("Int64")\<close> makes the nullable integers. On None
  \<^verbatim>\<open>pd.to_numeric(None, errors="coerce")\<close> is the float scalar \<^verbatim>\<open>nan\<close>, not a column;
  \<^verbatim>\<open>round\<close> leaves it as it is, and \<^verbatim>\<open>astype("Int64")\<close> on that NumPy scalar asks NumPy
  for a data type named \<^verbatim>\<open>Int64\<close>, which only pandas has: it raises TypeError.
  On a column the cast to the 64-bit integers is checked: a rounded code below
  \<open>- 2 ^ 63\<close> or not below \<open>2 ^ 63\<close> does not survive the cast unchanged, and
  \<^verbatim>\<open>astype("Int64")\<close> raises TypeError for the whole column. The missing codes stay
  missing. As everywhere in the model, the float is the exact value of its numeral.
  \<open>integer_code\<close> is the rounding of one cell, \<open>int64_ok\<close> the check of the cast on it,
  and \<open>cast_codes\<close> the two lines on the whole column.
\<close>

definition integer_code :: "(ustring \<Rightarrow> rat option) \<Rightarrow> cell \<Rightarrow> cell" where
  "integer_code num c =
     (case to_numeric num c of
        Num q \<Rightarrow> IntCode (round_half_even q)
      | _ \<Rightarrow> NaN)"

definition int64_ok :: "cell \<Rightarrow> bool" where
  "int64_ok c =
     (case c of
        IntCode i \<Rightarrow> - (2 ^ 63) \<le> i \<and> i < 2 ^ 63
      | _ \<Rightarrow> True)"

definition cast_codes :: "(ustring \<Rightarrow> rat option) \<Rightarrow> frame \<Rightarrow> frame \<Rightarrow> error + frame" where
  "cast_codes num df out =
     (case get_col df (u ''present_weather_code'') of
        None \<Rightarrow> Inl (TypeError (u ''data type Int64 not understood''))
      | Some col \<Rightarrow>
          (let codes = map (integer_code num) col
           in if list_all int64_ok codes
              then Inr (set_col (u ''present_weather_code'') codes out)
              else Inl (TypeError (u ''cannot safely cast non-equivalent float64 to int64''))))"

text \<open>\<^verbatim>\<open>out[names]\<close>: the named columns, in the order of the names.\<close>

definition select_cols :: "ustring list \<Rightarrow> frame \<Rightarrow> error + frame" where
  "select_cols names df =
     (case filter (\<lambda>k. k \<notin> set (columns df)) names of
        k # _ \<Rightarrow> Inl (KeyError k)
      | [] \<Rightarrow> Inr \<lparr>columns = names,
                   rows = map (\<lambda>r. map (\<lambda>k. r ! the (index_of (columns df) k)) names) (rows df)\<rparr>)"

text \<open>
  \<^verbatim>\<open>load_one\<close>, on the path of the file and its lines.
\<close>

definition load_one :: "(ustring \<Rightarrow> rat option) \<Rightarrow> path \<Rightarrow> ustring list \<Rightarrow> error + frame" where
  "load_one num p lines =
     (case read_header p lines of
        Inl e \<Rightarrow> Inl e
      | Inr (station_label, sep, cols) \<Rightarrow>
     (let raw = read_rows_raw lines sep cols;
          df = replace_na raw
      in case coerce_columns num [u ''t_max_c'', u ''t_min_c'', u ''precip_24h_mm'', u ''present_weather_code''] df of
        Inl e \<Rightarrow> Inl e
      | Inr df1 \<Rightarrow>
     (case add_timestamp df1 of
        Inl e \<Rightarrow> Inl e
      | Inr df2 \<Rightarrow>
     (let df3 = set_col (u ''station'') (broadcast df2 (Str station_label)) df2;
          out0 = assemble df3
      in case the_col df3 (u ''timestamp'') of
        Inl e \<Rightarrow> Inl e
      | Inr ts \<Rightarrow>
     (let out1 = set_col (u ''timestamp'') ts out0;
          out2 = set_col (u ''date'') (map date_of ts) out1;
          out3 = set_col (u ''time'') (map time_of ts) out2
      in case cast_codes num df3 out3 of
        Inl e \<Rightarrow> Inl e
      | Inr out4 \<Rightarrow>
          select_cols (filter (\<lambda>c. c \<in> set (columns out4)) KEEP_COLS) out4)))))"

subsection \<open>Loading all the files\<close>

text \<open>\<^verbatim>\<open>[load_one(p) for p in paths]\<close>: the first exception leaves the comprehension.\<close>

fun load_each :: "(ustring \<Rightarrow> rat option) \<Rightarrow> (path \<times> ustring list) list \<Rightarrow> error + frame list" where
  "load_each num [] = Inr []"
| "load_each num (f # fs) =
     (case load_one num (fst f) (snd f) of
        Inl e \<Rightarrow> Inl e
      | Inr t \<Rightarrow> (case load_each num fs of
                    Inl e \<Rightarrow> Inl e
                  | Inr ts \<Rightarrow> Inr (t # ts)))"

text \<open>The value of column \<open>k\<close> in the row \<open>r\<close> of \<open>df\<close>, missing when \<open>df\<close> has no such column.\<close>

definition cell_at :: "frame \<Rightarrow> cell list \<Rightarrow> ustring \<Rightarrow> cell" where
  "cell_at df r k = (case index_of (columns df) k of Some i \<Rightarrow> r ! i | None \<Rightarrow> NaN)"

definition add_new :: "ustring \<Rightarrow> ustring list \<Rightarrow> ustring list" where
  "add_new c acc = (if c \<in> set acc then acc else acc @ [c])"

text \<open>
  \<^verbatim>\<open>pd.concat(frames, ignore_index=True)\<close>: ValueError on no table at all. The columns
  are those of all the tables, in the order of their first appearance; the rows follow
  in the order of the tables, missing in the columns their table does not have.
\<close>

definition concat_frames :: "frame list \<Rightarrow> error + frame" where
  "concat_frames frames =
     (if frames = [] then Inl (ValueError (u ''No objects to concatenate''))
      else (let cols = fold add_new (concat (map columns frames)) []
            in Inr \<lparr>columns = cols,
                    rows = concat (map (\<lambda>f. map (\<lambda>r. map (cell_at f r) cols) (rows f)) frames)\<rparr>))"

text \<open>\<^verbatim>\<open>merged.dropna(subset=["timestamp"])\<close>\<close>

definition dropna_timestamp :: "frame \<Rightarrow> error + frame" where
  "dropna_timestamp df =
     (case index_of (columns df) (u ''timestamp'') of
        None \<Rightarrow> Inl (KeyError (u ''timestamp''))
      | Some i \<Rightarrow> Inr (df\<lparr>rows := filter (\<lambda>r. r ! i \<noteq> NaN) (rows df)\<rparr>))"

text \<open>
  The sort keys of a row. The station of a row is a string and, after \<^verbatim>\<open>dropna\<close>, its
  timestamp is a timestamp; any other cell counts as the least key.
\<close>

definition station_key :: "cell \<Rightarrow> ustring" where
  "station_key c = (case c of Str s \<Rightarrow> s | _ \<Rightarrow> [])"

definition timestamp_key :: "cell \<Rightarrow> nat \<times> nat \<times> nat \<times> nat \<times> nat" where
  "timestamp_key c =
     (case c of
        TS dt \<Rightarrow> (year dt, month dt, day dt, hour dt, minute dt)
      | _ \<Rightarrow> (0, 0, 0, 0, 0))"

definition row_key :: "nat \<Rightarrow> nat \<Rightarrow> cell list \<Rightarrow> ustring \<times> nat \<times> nat \<times> nat \<times> nat \<times> nat" where
  "row_key i j r = (station_key (r ! i), timestamp_key (r ! j))"

text \<open>
  \<^verbatim>\<open>.sort_values(["station", "timestamp"])\<close>: pandas sorts on several keys with a stable
  lexicographic sort of the rows, so rows with equal keys keep their order.
\<close>

definition sort_values :: "frame \<Rightarrow> error + frame" where
  "sort_values df =
     (case index_of (columns df) (u ''station'') of
        None \<Rightarrow> Inl (KeyError (u ''station''))
      | Some i \<Rightarrow>
          (case index_of (columns df) (u ''timestamp'') of
             None \<Rightarrow> Inl (KeyError (u ''timestamp''))
           | Some j \<Rightarrow> Inr (df\<lparr>rows := sort_key (row_key i j) (rows df)\<rparr>)))"

text \<open>
  \<^verbatim>\<open>load_all\<close> on the files given in order, each file its path and its lines (the
  listing of a directory is outside the model).
\<close>

definition load_all :: "(ustring \<Rightarrow> rat option) \<Rightarrow> (path \<times> ustring list) list \<Rightarrow> error + frame" where
  "load_all num files =
     (case load_each num files of
        Inl e \<Rightarrow> Inl e
      | Inr frames \<Rightarrow>
          (case concat_frames frames of
             Inl e \<Rightarrow> Inl e
           | Inr merged \<Rightarrow>
               (case dropna_timestamp merged of
                  Inl e \<Rightarrow> Inl e
                | Inr kept \<Rightarrow> sort_values kept)))"

subsection \<open>The first number of a text, read directly\<close>

text \<open>
  The first decimal number of a text without a pattern search: the digits from the
  first digit of the text on, the fraction when a point and a digit follow them, and a
  minus sign when the character just before the first digit is one. \<open>None\<close> when the
  text has no digit.
\<close>

definition first_number :: "ustring \<Rightarrow> rat option" where
  "first_number t =
     (let pre = takeWhile (\<lambda>c. \<not> isdigit c) t;
          rest = dropWhile (\<lambda>c. \<not> isdigit c) t;
          ip = takeWhile isdigit rest;
          after = dropWhile isdigit rest;
          fp = (case after of
                  c # r \<Rightarrow> if c = (cp (CHR ''.'')) then takeWhile isdigit r else []
                | [] \<Rightarrow> []);
          v = of_nat (digits_val ip) + of_nat (digits_val fp) / 10 ^ length fp
      in if rest = [] then None
         else Some (if pre \<noteq> [] \<and> last pre = (cp (CHR ''-'')) then - v else v))"

text \<open>
  The messy-float rule as the specification words it: the unit \<^verbatim>\<open>mm\<close>, in either case, is
  a suffix of the text and is stripped from its end; the commas become points; the
  result is the first number of what remains.
\<close>

definition endswith :: "ustring \<Rightarrow> ustring \<Rightarrow> bool" where
  "endswith suffix s = startswith (rev suffix) (rev s)"

definition strip_unit_suffix :: "ustring \<Rightarrow> ustring" where
  "strip_unit_suffix s =
     (if endswith (u ''mm'') s \<or> endswith (u ''MM'') s then rstrip (take (length s - 2) s) else s)"

definition spec_parse_float_messy :: "ustring \<Rightarrow> rat option" where
  "spec_parse_float_messy s0 =
     (let s = strip s0 in
      if s \<in> set NA_TOKENS then None
      else if lower s = (u ''nulle'') then Some 0
      else first_number (replace (u '','') (u ''.'') (strip_unit_suffix s)))"

subsection \<open>The two portions of a date text\<close>

text \<open>
  The date portion of a text is the trimmed text up to its first space, the whole
  trimmed text when it has no space; the time portion is what follows that space.
\<close>

definition date_portion :: "ustring \<Rightarrow> ustring" where
  "date_portion s = takeWhile (\<lambda>c. c \<noteq> (cp (CHR '' ''))) (strip s)"

definition time_portion :: "ustring \<Rightarrow> ustring" where
  "time_portion s = drop 1 (dropWhile (\<lambda>c. c \<noteq> (cp (CHR '' ''))) (strip s))"

text \<open>
  The two readings of a date written as two numbers and a year after them, with one
  separator: the first number as the day, and the first number as the month. As the
  specification words it, a date with both readings is read day-first.
\<close>

definition day_first_reading :: "nat \<Rightarrow> ustring \<Rightarrow> error + datetime" where
  "day_first_reading sep d = strptime d [Dir_d, Lit sep, Dir_m, Lit sep, Dir_Y]"


subsection \<open>The header of a file, described directly\<close>

text \<open>
  The header block of a file is its leading comment lines up to and including the
  first line that starts with \<^verbatim>\<open># fields=\<close>; without such a line it is all the leading
  comment lines. The fields line of a file is that first line, if there is one.
\<close>

definition is_comment :: "ustring \<Rightarrow> bool" where
  "is_comment line = startswith (u ''#'') line"

definition is_fields :: "ustring \<Rightarrow> bool" where
  "is_fields line = startswith (u ''# fields='') line"

definition fields_line_of :: "ustring list \<Rightarrow> ustring option" where
  "fields_line_of lines = find is_fields (takeWhile is_comment lines)"

definition header_block :: "ustring list \<Rightarrow> ustring list" where
  "header_block lines =
     (let block = takeWhile is_comment lines
      in takeWhile (\<lambda>l. \<not> is_fields l) block @ take 1 (dropWhile (\<lambda>l. \<not> is_fields l) block))"

text \<open>
  A line declares a station when it holds \<^verbatim>\<open>station_name=\<close>; the value it declares is
  the text of the stripped line after the first \<^verbatim>\<open>station_name=\<close>, up to the next
  \<^verbatim>\<open>station_name=\<close> when the line holds another one.
\<close>

definition declares_station :: "ustring \<Rightarrow> bool" where
  "declares_station line = contains (u ''station_name='') line"

definition station_value :: "ustring \<Rightarrow> ustring" where
  "station_value line = split (u ''station_name='') (strip line) ! 1"

text \<open>
  The station label of a file, described directly: the value declared by the last line
  of the header block that declares a station, when that value is not empty; the stem
  of the path otherwise.
\<close>

definition station_label :: "path \<Rightarrow> ustring list \<Rightarrow> ustring" where
  "station_label p lines =
     (case filter declares_station (header_block lines) of
        [] \<Rightarrow> path_stem p
      | d # ds \<Rightarrow>
          (let v = station_value (last (d # ds)) in if v = [] then path_stem p else v))"

subsection \<open>The canonical record of a row, described directly\<close>

text \<open>
  The ten canonical values of a row \<open>r\<close> of the table \<open>df\<close> that \<^verbatim>\<open>load_one\<close> has built
  before it assembles its output: each value is the cell of the row in the column of
  that name, missing when the table has no such column; the date and the time are those
  of the timestamp; the weather code is the rounded number.
\<close>

definition canonical_row :: "(ustring \<Rightarrow> rat option) \<Rightarrow> frame \<Rightarrow> cell list \<Rightarrow> cell list" where
  "canonical_row num df r =
     [cell_at df r (u ''station''),
      cell_at df r (u ''timestamp''),
      date_of (cell_at df r (u ''timestamp'')),
      time_of (cell_at df r (u ''timestamp'')),
      cell_at df r (u ''t_max_c''),
      cell_at df r (u ''t_min_c''),
      cell_at df r (u ''precip_24h_mm''),
      cell_at df r (u ''precip_type''),
      integer_code num (cell_at df r (u ''present_weather_code'')),
      cell_at df r (u ''notes'')]"

subsection \<open>A reading of plain decimal numbers, for the examples\<close>

text \<open>
  The examples below need some reading of numbers for the parameter \<open>num\<close>. This one
  reads an ASCII text that is a decimal numeral with whitespace around it, and nothing
  else; pandas reads such a numeral to the same value.
\<close>

definition plain_decimal :: "ustring \<Rightarrow> rat option" where
  "plain_decimal s =
     (if list_all (\<lambda>c. c < 128) s
      then (case py_float (strip s) of Inr q \<Rightarrow> Some q | Inl e \<Rightarrow> None)
      else None)"

section \<open>Properties\<close>

text \<open>A literal text is the list of its code points.\<close>

declare u_def [simp] cp_def [simp]

subsection \<open>Character classes\<close>

text \<open>Below U+0660 the decimal digits are the ten ASCII digits.\<close>

lemma isdigit_ascii: "c < 1632 \<Longrightarrow> isdigit c \<longleftrightarrow> 48 \<le> c \<and> c \<le> 57"
  unfolding isdigit_def digit_zero_def DIGIT_ZEROS_def by auto

text \<open>Below U+0085 the whitespace is TAB to CR, the four separators and the space.\<close>

lemma isspace_ascii: "c < 133 \<Longrightarrow> isspace c \<longleftrightarrow> (9 \<le> c \<and> c \<le> 13) \<or> (28 \<le> c \<and> c \<le> 32)"
  unfolding isspace_def WHITESPACE_def by auto

subsection \<open>Separator inference\<close>

lemma contains_char: "contains [c] s = (c \<in> set s)"
  by (induction s) (auto simp: startswith_def)

lemma split1_fields_prefix: "split1 (u ''fields='') (u ''# fields='' @ raw) = [u ''# '', raw]"
  by (simp add: startswith_def)

lemma index1_fields: "index1 (split1 (u ''fields='') (u ''# fields='' @ raw)) = Inr raw"
  unfolding split1_fields_prefix by simp

lemma detect_separator_fields:
  "detect_separator (u ''# fields='' @ raw) =
     Inr (let payload = strip raw
          in if TAB \<in> set payload then [TAB]
             else if (cp (CHR ''|'')) \<in> set payload then (u ''|'')
             else if (cp (CHR '';'')) \<in> set payload then (u '';'')
             else (u '',''))"
  unfolding detect_separator_def index1_fields
  by (simp add: contains_char Let_def)

text \<open>
  C8. The header reader hands \<^verbatim>\<open>_detect_separator\<close> a line that starts with
  \<^verbatim>\<open># fields=\<close>. The payload is the stripped text after it. The separator is TAB when
  the payload holds a TAB; otherwise the first of \<^verbatim>\<open>|\<close>, \<^verbatim>\<open>;\<close> and \<^verbatim>\<open>,\<close> that the payload
  holds, in that order; and \<^verbatim>\<open>,\<close> when it holds none of them. Commas in the payload
  therefore never win over a \<^verbatim>\<open>|\<close> or a \<^verbatim>\<open>;\<close>.
\<close>

theorem detect_separator_priority:
  "detect_separator (u ''# fields='' @ raw) =
     Inr (let payload = strip raw
          in if TAB \<in> set payload then [TAB]
             else if (cp (CHR ''|'')) \<in> set payload then (u ''|'')
             else if (cp (CHR '';'')) \<in> set payload then (u '';'')
             else (u '',''))"
  by (rule detect_separator_fields)

subsection \<open>Row tokenizer\<close>

lemma split_nonempty: "split sep s \<noteq> []"
  by (induction sep s rule: split.induct) (auto split: list.splits)

lemma read_header_cols_nonempty:
  "read_header p lines = Inr (station, sep, cols) \<Longrightarrow> cols \<noteq> []"
  by (auto simp: read_header_def split_nonempty split: sum.splits option.splits prod.splits)

text \<open>
  C7. Let \<open>N\<close> be the number of declared columns; the header reader never returns an
  empty column list (\<open>read_header_cols_nonempty\<close>), so \<open>N\<close> is at least one. Let
  \<open>parts\<close> be the tokens of a data line: the line without its newline, with the decimal
  commas rewritten when the separator is the comma, split on the separator. With more
  than \<open>N\<close> tokens the row is the first \<open>N - 1\<close> tokens and then the remaining tokens
  joined again with the separator; with fewer than \<open>N\<close> tokens the row is the tokens
  padded on the right with empty strings; with \<open>N\<close> tokens it is the tokens. The row
  has \<open>N\<close> entries in every case, and so has every row of the raw table.
\<close>

theorem tokenize_line_width:
  assumes "cols \<noteq> []"
    and "parts = split sep (if sep = (u '','') then decimal_commas None (rstrip_newline line)
                            else rstrip_newline line)"
    and "N = length cols"
  shows "length (tokenize_line sep cols line) = N
    \<and> (N < length parts \<longrightarrow>
         tokenize_line sep cols line = take (N - 1) parts @ [join sep (drop (N - 1) parts)])
    \<and> (length parts < N \<longrightarrow>
         tokenize_line sep cols line = parts @ replicate (N - length parts) [])
    \<and> (length parts = N \<longrightarrow> tokenize_line sep cols line = parts)
    \<and> (\<forall>r \<in> set (rows (read_rows_raw lines sep cols)). length r = N)"
proof -
  have pos: "0 < N" using assms by simp
  have tok: "tokenize_line sep cols l =
      (let ps = split sep (if sep = (u '','') then decimal_commas None (rstrip_newline l)
                            else rstrip_newline l)
       in if length ps = N then ps
          else if N < length ps then take (N - 1) ps @ [join sep (drop (N - 1) ps)]
          else ps @ replicate (N - length ps) [])" for l
    using pos assms(3)
    by (simp add: tokenize_line_def Let_def slice_upto_def slice_from_def nat_diff_distrib')
  have len: "length (tokenize_line sep cols l) = N" for l
    using pos by (auto simp: tok Let_def)
  show ?thesis
    using pos assms(2) len by (auto simp: tok Let_def read_rows_raw_def)
qed

theorem tokenize_line_width_witness:
  "tokenize_line (u '';'') [u ''date'', u ''t_max_c'', u ''notes''] (u ''1925-03-04;5;a;b;c'')
     = [u ''1925-03-04'', u ''5'', u ''a;b;c'']
   \<and> tokenize_line (u '';'') [u ''date'', u ''t_max_c'', u ''notes''] (u ''1925-03-04;5'')
     = [u ''1925-03-04'', u ''5'', []]"
proof -
  have c: "[u ''date'', u ''t_max_c'', u ''notes''] \<noteq> []" by simp
  have n: "(3::nat) = length [u ''date'', u ''t_max_c'', u ''notes'']" by simp
  have p1: "[u ''1925-03-04'', u ''5'', u ''a'', u ''b'', u ''c''] =
      split (u '';'') (if u '';'' = u '','' then decimal_commas None (rstrip_newline (u ''1925-03-04;5;a;b;c''))
                       else rstrip_newline (u ''1925-03-04;5;a;b;c''))"
    by code_simp
  have p2: "[u ''1925-03-04'', u ''5''] =
      split (u '';'') (if u '';'' = u '','' then decimal_commas None (rstrip_newline (u ''1925-03-04;5''))
                       else rstrip_newline (u ''1925-03-04;5''))"
    by code_simp
  have l1: "3 < length [u ''1925-03-04'', u ''5'', u ''a'', u ''b'', u ''c'']" by simp
  have l2: "length [u ''1925-03-04'', u ''5''] < 3" by simp
  note e1 = tokenize_line_width [OF c p1 n, of "[]", THEN conjunct2, THEN conjunct1, rule_format, OF l1]
  note e2 = tokenize_line_width [OF c p2 n, of "[]", THEN conjunct2, THEN conjunct2, THEN conjunct1,
      rule_format, OF l2]
  have v1: "take (3 - 1) [u ''1925-03-04'', u ''5'', u ''a'', u ''b'', u ''c'']
        @ [join (u '';'') (drop (3 - 1) [u ''1925-03-04'', u ''5'', u ''a'', u ''b'', u ''c''])]
      = [u ''1925-03-04'', u ''5'', u ''a;b;c'']"
    by code_simp
  have v2: "[u ''1925-03-04'', u ''5''] @ replicate (3 - length [u ''1925-03-04'', u ''5'']) []
      = [u ''1925-03-04'', u ''5'', []]"
    by code_simp
  from e1 v1 e2 v2 show ?thesis by (simp only:)
qed

subsection \<open>Whitespace around a messy float\<close>

lemma lstrip_pad: "\<forall>c \<in> set ws. isspace c \<Longrightarrow> lstrip (ws @ s) = lstrip s"
  using dropWhile_append2 [of ws isspace s] by (simp add: lstrip_def)

lemma rstrip_pad: "\<forall>c \<in> set ws. isspace c \<Longrightarrow> rstrip (s @ ws) = rstrip s"
  using dropWhile_append2 [of "rev ws" isspace "rev s"] by (simp add: rstrip_def)

lemma lstrip_append_rstrip:
  "\<forall>c \<in> set ws. isspace c \<Longrightarrow> rstrip (lstrip (s @ ws)) = rstrip (lstrip s)"
proof (cases "\<forall>c \<in> set s. isspace c")
  case True
  assume "\<forall>c \<in> set ws. isspace c"
  with True have "\<forall>c \<in> set (s @ ws). isspace c" by auto
  then have "dropWhile isspace (s @ ws) = []"
    unfolding dropWhile_eq_Nil_conv .
  moreover from True have "dropWhile isspace s = []"
    unfolding dropWhile_eq_Nil_conv .
  ultimately show ?thesis by (simp only: lstrip_def)
next
  case False
  assume ws: "\<forall>c \<in> set ws. isspace c"
  from False obtain x where "x \<in> set s" "\<not> isspace x" by blast
  then have "lstrip (s @ ws) = lstrip s @ ws"
    by (simp add: lstrip_def)
  with ws show ?thesis by (simp add: rstrip_pad)
qed

lemma strip_pad:
  "\<forall>c \<in> set ws1. isspace c \<Longrightarrow> \<forall>c \<in> set ws2. isspace c \<Longrightarrow> strip (ws1 @ s @ ws2) = strip s"
  by (simp add: strip_def lstrip_pad lstrip_append_rstrip)

text \<open>
  C10. \<^verbatim>\<open>_parse_float_messy\<close> strips its input before anything else, so whitespace around
  a text does not change the result: the padded and the unpadded text give the same
  value, for every padding made of characters that \<^verbatim>\<open>str.strip\<close> removes, the no-break
  space and the other whitespace outside ASCII included. A sentinel token with
  whitespace around it, such as \<^verbatim>\<open>" NA "\<close> or \<^verbatim>\<open>" -999 "\<close>, is therefore missing like the bare
  token.
\<close>

theorem parse_float_messy_padding:
  assumes "\<forall>c \<in> set ws1. isspace c" and "\<forall>c \<in> set ws2. isspace c"
  shows "parse_float_messy (Some (ws1 @ s @ ws2)) = parse_float_messy (Some s)"
  using assms by (simp add: parse_float_messy_def strip_pad)

theorem parse_float_messy_padding_witness:
  "parse_float_messy (Some (u '' NA '')) = Inr None
   \<and> parse_float_messy (Some (TAB # (u '' -999 '') @ [NEWLINE])) = Inr None
   \<and> parse_float_messy (Some ([160] @ (u ''-999'') @ [8195, 12288])) = Inr None"
  using parse_float_messy_padding [of "(u '' '')" "(u '' '')" "(u ''NA'')"]
    parse_float_messy_padding [of "[TAB, (cp (CHR '' ''))]" "[(cp (CHR '' '')), NEWLINE]" "(u ''-999'')"]
    parse_float_messy_padding [of "[160]" "[8195, 12288]" "(u ''-999'')"]
  by (simp add: isspace_def WHITESPACE_def TAB_def NEWLINE_def parse_float_messy_def strip_def
       lstrip_def rstrip_def NA_TOKENS_def EM_DASH_def)

subsection \<open>Messy floats\<close>

lemma not_digit_point: "\<not> isdigit (cp (CHR ''.''))" "\<not> isdigit (cp (CHR ''-''))"
  by (simp_all add: isdigit_ascii)

declare not_digit_point [simplified, simp]

lemma takeWhile_digits_app:
  "(case fp of [] \<Rightarrow> True | c # _ \<Rightarrow> \<not> isdigit c) \<Longrightarrow> \<forall>c \<in> set ip. isdigit c \<Longrightarrow>
   takeWhile isdigit (ip @ fp) = ip \<and> dropWhile isdigit (ip @ fp) = fp"
  by (induction ip) (auto split: list.splits)

text \<open>The value of the match of the unsigned pattern at the start of a text.\<close>

lemma unsigned_float_of_match:
  assumes "unsigned_at r = Some m"
  shows "unsigned_float m =
     Inr (of_nat (digits_val (takeWhile isdigit r))
          + (case dropWhile isdigit r of
               c # r' \<Rightarrow> if c = (cp (CHR ''.'')) then of_nat (digits_val (takeWhile isdigit r')) / 10 ^ length (takeWhile isdigit r') else 0
             | [] \<Rightarrow> 0))"
proof -
  define ip where "ip = takeWhile isdigit r"
  define fp where "fp = (case dropWhile isdigit r of
                  c # r' \<Rightarrow> if c = (cp (CHR ''.'')) \<and> takeWhile isdigit r' \<noteq> []
                            then c # takeWhile isdigit r' else []
                | [] \<Rightarrow> [])"
  from assms have m: "m = ip @ fp" and ne: "ip \<noteq> []"
    by (auto simp: unsigned_at_def Let_def ip_def fp_def split: if_splits)
  have dig: "\<forall>c \<in> set ip. isdigit c"
    unfolding ip_def by (auto dest: set_takeWhileD)
  have fpc: "(case fp of [] \<Rightarrow> True | c # _ \<Rightarrow> \<not> isdigit c)"
    unfolding fp_def by (auto split: list.splits)
  have tw: "takeWhile isdigit m = ip" "dropWhile isdigit m = fp"
    using takeWhile_digits_app [OF fpc dig] m by auto
  have "unsigned_float m =
      (case (case fp of [] \<Rightarrow> Some [] | c # r' \<Rightarrow> if c = (cp (CHR ''.'')) \<and> r' \<noteq> [] \<and> list_all isdigit r' then Some r' else None) of
         None \<Rightarrow> Inl (ValueError (u ''could not convert string to float''))
       | Some f \<Rightarrow> Inr (of_nat (digits_val ip) + of_nat (digits_val f) / 10 ^ length f))"
    using ne by (simp add: unsigned_float_def tw Let_def)
  also have "\<dots> = Inr (of_nat (digits_val ip)
          + (case dropWhile isdigit r of
               c # r' \<Rightarrow> if c = (cp (CHR ''.'')) then of_nat (digits_val (takeWhile isdigit r')) / 10 ^ length (takeWhile isdigit r') else 0
             | [] \<Rightarrow> 0))"
  proof (cases "dropWhile isdigit r")
    case Nil
    show ?thesis unfolding fp_def Nil by (simp add: digits_val_def)
  next
    case (Cons c r')
    show ?thesis unfolding fp_def Cons
      by (auto simp: list_all_iff digits_val_def dest: set_takeWhileD)
  qed
  finally show ?thesis unfolding ip_def .
qed


lemma py_float_of_match:
  assumes "number_at s = Some m"
  shows "\<exists>q. py_float m = Inr q"
proof (cases s)
  case Nil
  with assms show ?thesis by (simp add: number_at_def)
next
  case (Cons c r)
  show ?thesis
  proof (cases "c = (cp (CHR ''-''))")
    case True
    with assms Cons obtain m' where m': "unsigned_at r = Some m'" "m = c # m'"
      by (auto simp: number_at_def)
    from unsigned_float_of_match [OF m'(1)] obtain q where "unsigned_float m' = Inr q" by blast
    with m' True show ?thesis by (simp add: py_float_def)
  next
    case False
    with assms Cons have u: "unsigned_at s = Some m" by (simp add: number_at_def)
    then have "m \<noteq> [] \<and> hd m = c"
      using Cons by (auto simp: unsigned_at_def Let_def split: if_splits)
    then obtain m' where "m = c # m'" by (cases m) auto
    moreover from unsigned_float_of_match [OF u] obtain q where "unsigned_float m = Inr q" by blast
    ultimately show ?thesis using False by (simp add: py_float_def)
  qed
qed

lemma search_number_float:
  "search_number s = Some m \<Longrightarrow> \<exists>q. py_float m = Inr q"
  by (induction s) (auto split: option.splits dest: py_float_of_match)

lemma parse_float_messy_total: "\<exists>r. parse_float_messy x = Inr r"
proof (cases x)
  case None
  then show ?thesis by (simp add: parse_float_messy_def)
next
  case (Some s0)
  show ?thesis
  proof (cases "search_number (replace (u '','') (u ''.'') (replace (u ''MM'') (u ''mm'') (replace (u '' mm'') [] (strip s0))))")
    case None
    with Some show ?thesis by (simp add: parse_float_messy_def Let_def)
  next
    case (Some m)
    from search_number_float [OF this] obtain q where "py_float m = Inr q" by blast
    with Some \<open>x = Some s0\<close> show ?thesis by (simp add: parse_float_messy_def Let_def)
  qed
qed


lemma unsigned_at_None: "unsigned_at r = None \<longleftrightarrow> (r = [] \<or> \<not> isdigit (hd r))"
  by (cases r) (auto simp: unsigned_at_def Let_def)

lemma first_number_skip:
  assumes "\<not> isdigit c" and "c \<noteq> (cp (CHR ''-'')) \<or> cs = [] \<or> \<not> isdigit (hd cs)"
  shows "first_number (c # cs) = first_number cs"
proof (cases cs)
  case Nil
  with assms show ?thesis by (simp add: first_number_def)
next
  case (Cons d ds)
  with assms show ?thesis
    by (cases "isdigit d") (auto simp: first_number_def Let_def)
qed

lemma digits_val_Nil [simp]: "digits_val [] = 0"
  by (simp add: digits_val_def)

lemma frac_forms:
  "(case after of
      c # r' \<Rightarrow> if c = (cp (CHR ''.'')) then of_nat (digits_val (takeWhile isdigit r')) / 10 ^ length (takeWhile isdigit r') else 0
    | [] \<Rightarrow> (0::rat))
   = of_nat (digits_val (case after of c # r \<Rightarrow> if c = (cp (CHR ''.'')) then takeWhile isdigit r else [] | [] \<Rightarrow> []))
      / 10 ^ length (case after of c # r \<Rightarrow> if c = (cp (CHR ''.'')) then takeWhile isdigit r else [] | [] \<Rightarrow> [])"
  by (cases after) auto

lemma first_number_digit:
  assumes "isdigit c" and "unsigned_at (c # cs) = Some m"
  shows "map_sum id Some (unsigned_float m) = Inr (first_number (c # cs))"
  using assms(1) unfolding unsigned_float_of_match [OF assms(2)] frac_forms
  by (simp add: first_number_def Let_def)

lemma first_number_minus:
  assumes "unsigned_at cs = Some m"
  shows "map_sum id Some (py_float ((cp (CHR ''-'')) # m)) = Inr (first_number ((cp (CHR ''-'')) # cs))"
proof -
  from assms obtain d ds where cs: "cs = d # ds" "isdigit d"
    using unsigned_at_None [of cs] by (cases cs) auto
  show ?thesis
    using cs(2) unsigned_float_of_match [OF assms [unfolded cs(1)]]
    unfolding py_float_def cs(1) frac_forms
    by (simp add: first_number_def Let_def)
qed

lemma search_number_first:
  "(case search_number t of None \<Rightarrow> Inr None | Some m \<Rightarrow> map_sum id Some (py_float m))
     = Inr (first_number t)"
proof (induction t)
  case Nil
  show ?case by (simp add: first_number_def)
next
  case (Cons c cs)
  show ?case
  proof (cases "isdigit c")
    case True
    then obtain m where m: "unsigned_at (c # cs) = Some m"
      using unsigned_at_None [of "c # cs"] by (cases "unsigned_at (c # cs)") auto
    then have "m \<noteq> [] \<and> hd m = c"
      by (auto simp: unsigned_at_def Let_def split: if_splits)
    then obtain m' where m': "m = c # m'" by (cases m) auto
    from True have nm: "c \<noteq> (cp (CHR ''-''))" by auto
    have "py_float m = unsigned_float m" using nm m' by (simp add: py_float_def)
    with first_number_digit [OF True m] m nm show ?thesis
      by (simp add: number_at_def)
  next
    case False
    show ?thesis
    proof (cases "c = (cp (CHR ''-'')) \<and> unsigned_at cs \<noteq> None")
      case True
      then obtain m where m: "unsigned_at cs = Some m" by auto
      with True first_number_minus [OF m] show ?thesis by (simp add: number_at_def)
    next
      case no: False
      have "number_at (c # cs) = None"
        using no False unsigned_at_None [of "c # cs"] by (auto simp: number_at_def)
      moreover have "first_number (c # cs) = first_number cs"
        using no False unsigned_at_None [of cs] by (intro first_number_skip) auto
      ultimately show ?thesis using Cons.IH by simp
    qed
  qed
qed

lemma lower_char_not_upper: "lower_char c \<noteq> (cp (CHR ''N''))"
  by (auto simp: lower_char_def)

lemma lower_word_zero: "lower t \<in> set WORD_ZERO \<longleftrightarrow> lower t = (u ''nulle'')"
proof -
  have "lower t \<noteq> (u ''NULLE'')"
    using lower_char_not_upper by (cases t) (auto simp: lower_def)
  then show ?thesis by (simp add: WORD_ZERO_def)
qed

lemma take_drop_prefix: "startswith old s \<Longrightarrow> s = old @ drop (length old) s"
  by (metis append_take_drop_id startswith_def)

lemma filter_isdigit_replace:
  "filter isdigit old = [] \<Longrightarrow> filter isdigit new = [] \<Longrightarrow>
   filter isdigit (replace old new s) = filter isdigit s"
proof (induction old new s rule: replace.induct)
  case (1 old new)
  show ?case by simp
next
  case (2 old new c cs)
  show ?case
  proof (cases "old \<noteq> [] \<and> startswith old (c # cs)")
    case True
    then have "filter isdigit (c # cs) = filter isdigit (old @ drop (length old) (c # cs))"
      using take_drop_prefix [of old "c # cs"] by simp
    with True 2 show ?thesis by simp
  next
    case False
    with 2 show ?thesis by auto
  qed
qed

lemma first_number_None: "first_number t = None \<longleftrightarrow> filter isdigit t = []"
proof -
  have "dropWhile (\<lambda>c. \<not> isdigit c) t = [] \<longleftrightarrow> filter isdigit t = []"
    by (induction t) auto
  then show ?thesis by (simp add: first_number_def Let_def)
qed

text \<open>
  C6, as the code has it. \<^verbatim>\<open>_parse_float_messy\<close> maps \<^verbatim>\<open>"12,5 mm"\<close> to 12.5 and \<^verbatim>\<open>"7.3"\<close> to
  7.3, \<^verbatim>\<open>nulle\<close> in any letter case to 0.0, and \<^verbatim>\<open>"-999"\<close>, \<^verbatim>\<open>"NA"\<close>, the empty string and the
  em-dash to missing. On any other text it deletes every occurrence of \<^verbatim>\<open>" mm"\<close> (a space
  and the lower-case unit) wherever it stands, rewrites \<^verbatim>\<open>"MM"\<close> to \<^verbatim>\<open>"mm"\<close> without
  deleting it, turns every comma into a point, and returns the first decimal number of
  the text so obtained. The result is missing exactly for a sentinel token and for a
  text, other than the zero word, that has no decimal digit, of any script.
\<close>

theorem parse_float_messy_rule:
  "parse_float_messy (Some (u ''12,5 mm'')) = Inr (Some (25 / 2))
   \<and> parse_float_messy (Some (u ''7.3'')) = Inr (Some (73 / 10))
   \<and> parse_float_messy (Some (u ''nulle'')) = Inr (Some 0)
   \<and> parse_float_messy (Some (u ''NULLE'')) = Inr (Some 0)
   \<and> parse_float_messy (Some (u ''NuLLe'')) = Inr (Some 0)
   \<and> parse_float_messy (Some (u ''-999'')) = Inr None
   \<and> parse_float_messy (Some (u ''NA'')) = Inr None
   \<and> parse_float_messy (Some []) = Inr None
   \<and> parse_float_messy (Some EM_DASH) = Inr None
   \<and> parse_float_messy (Some s) =
        Inr (let t = strip s in
             if t \<in> set [[], u ''NA'', EM_DASH, u ''-999''] then None
             else if lower t = (u ''nulle'') then Some 0
             else first_number (replace (u '','') (u ''.'') (replace (u ''MM'') (u ''mm'') (replace (u '' mm'') [] t))))
   \<and> ((parse_float_messy (Some s) = Inr None) =
        (strip s \<in> set [[], u ''NA'', EM_DASH, u ''-999'']
         \<or> (lower (strip s) \<noteq> (u ''nulle'') \<and> filter isdigit (strip s) = [])))"
proof -
  have general: "parse_float_messy (Some s) =
        Inr (let t = strip s in
             if t \<in> set [[], u ''NA'', EM_DASH, u ''-999''] then None
             else if lower t = (u ''nulle'') then Some 0
             else first_number (replace (u '','') (u ''.'') (replace (u ''MM'') (u ''mm'') (replace (u '' mm'') [] t))))"
    unfolding parse_float_messy_def lower_word_zero
    by (simp add: Let_def search_number_first NA_TOKENS_def)
  have digits: "filter isdigit (replace (u '','') (u ''.'') (replace (u ''MM'') (u ''mm'') (replace (u '' mm'') [] t)))
      = filter isdigit t" for t
    by (simp add: filter_isdigit_replace isdigit_ascii)
  have missing: "(parse_float_messy (Some s) = Inr None) =
        (strip s \<in> set [[], u ''NA'', EM_DASH, u ''-999'']
         \<or> (lower (strip s) \<noteq> (u ''nulle'') \<and> filter isdigit (strip s) = []))"
    unfolding general by (simp add: Let_def first_number_None digits [simplified])
  have e1: "parse_float_messy (Some (u ''12,5 mm'')) = Inr (Some (25 / 2))" by code_simp
  have e2: "parse_float_messy (Some (u ''7.3'')) = Inr (Some (73 / 10))" by code_simp
  have e3: "parse_float_messy (Some (u ''nulle'')) = Inr (Some 0)" by code_simp
  have e4: "parse_float_messy (Some (u ''NULLE'')) = Inr (Some 0)" by code_simp
  have e5: "parse_float_messy (Some (u ''NuLLe'')) = Inr (Some 0)" by code_simp
  have e6: "parse_float_messy (Some (u ''-999'')) = Inr None" by code_simp
  have e7: "parse_float_messy (Some (u ''NA'')) = Inr None" by code_simp
  have e8: "parse_float_messy (Some []) = Inr None" by code_simp
  have e9: "parse_float_messy (Some EM_DASH) = Inr None" by code_simp
  from e1 e2 e3 e4 e5 e6 e7 e8 e9 general missing show ?thesis by blast
qed

text \<open>
  The digits and the whitespace of other scripts are read like the ASCII ones:
  the Arabic-Indic \<^verbatim>\<open>12,5\<close> is 12.5, a lone Arabic-Indic three is 3, and the sentinel
  \<^verbatim>\<open>-999\<close> between a no-break space and an em space is missing.
\<close>

lemma parse_float_messy_unicode:
  "parse_float_messy (Some ([1633, 1634] @ u '','' @ [1637])) = Inr (Some (25 / 2))
   \<and> parse_float_messy (Some [1635]) = Inr (Some 3)
   \<and> parse_float_messy (Some ([160] @ u ''-999'' @ [8195])) = Inr None"
  by code_simp

text \<open>
  C6 as the specification words it fails on the code: the unit is not stripped as a
  suffix in either case. The lower-case \<^verbatim>\<open>" mm"\<close> is deleted inside the text, which joins
  the digits around it (\<^verbatim>\<open>"1 mm2"\<close> reads as 12, where stripping a unit suffix leaves 1),
  and the upper-case spelling is not deleted at all (\<^verbatim>\<open>"1 MM2"\<close> reads as 1).
\<close>

theorem parse_float_messy_unit_counterexample:
  "parse_float_messy (Some (u ''1 mm2'')) \<noteq> Inr (spec_parse_float_messy (u ''1 mm2''))
   \<and> parse_float_messy (Some (u ''1 mm2'')) = Inr (Some 12)
   \<and> spec_parse_float_messy (u ''1 mm2'') = Some 1
   \<and> parse_float_messy (Some (u ''1 MM2'')) = Inr (Some 1)"
  by code_simp

subsection \<open>Totality of the normalizers\<close>

text \<open>
  C1. \<^verbatim>\<open>_parse_float_messy\<close> never raises (\<open>parse_float_messy_total\<close>), and
  \<^verbatim>\<open>_parse_date_any\<close> catches the ValueError of every format that does not parse. It does
  not catch the ValueError of \<^verbatim>\<open>dt.replace\<close>: on the input of the claim, a date followed
  by the clock text \<^verbatim>\<open>25:70\<close>, the pattern finds the hour 25 and the minute 70 and the
  function raises instead of returning a timestamp or NaT.
\<close>

theorem parse_date_any_raises:
  "parse_date_any (Some (u ''1925-03-04 25:70'')) = Inl (ValueError (u ''hour must be in 0..23''))"
  by code_simp

subsection \<open>Dates\<close>



lemma split1_char:
  "a \<in> set t \<Longrightarrow>
   split1 [a] t = [takeWhile (\<lambda>c. c \<noteq> a) t, drop 1 (dropWhile (\<lambda>c. c \<noteq> a) t)]"
  by (induction t) (auto simp: startswith_def)

lemma takeWhile_no_char:
  "a \<notin> set t \<Longrightarrow> takeWhile (\<lambda>c. c \<noteq> a) t = t \<and> dropWhile (\<lambda>c. c \<noteq> a) t = []"
  by (induction t) auto

lemma parse_date_any_portions:
  "parse_date_any (Some s) =
     (case try_formats DATE_FORMATS (date_portion s) of
        None \<Rightarrow> Inr None
      | Some dt \<Rightarrow>
          (case search_clock (time_portion s) of
             None \<Rightarrow> Inr (Some dt)
           | Some (h, m) \<Rightarrow> map_sum id Some (replace_hour_minute dt h m)))"
proof (cases "(cp (CHR '' '')) \<in> set (strip s)")
  case True
  then show ?thesis
    unfolding parse_date_any_def date_portion_def time_portion_def
    by (simp add: contains_char split1_char Let_def split: option.splits)
next
  case False
  then show ?thesis
    unfolding parse_date_any_def date_portion_def time_portion_def
    by (simp add: contains_char takeWhile_no_char Let_def split: option.splits)
qed
























text \<open>
  The digits of other scripts are read where the patterns have \<^verbatim>\<open>\d\<close>: a year in
  full-width digits and a clock in Arabic-Indic digits give the timestamp, and so does
  a day whose second digit is Arabic-Indic; a day whose first digit is an Arabic-Indic
  zero matches no alternative of \<^verbatim>\<open>%d\<close>.
\<close>

lemma parse_date_any_unicode:
  "parse_date_any (Some ([65297, 65305, 65298, 65301] @ u ''-03-04 '' @ [1633, 1636] @ u '':'' @ [1635, 1632]))
     = Inr (Some \<lparr>year = 1925, month = 3, day = 4, hour = 14, minute = 30\<rparr>)
   \<and> day_first_reading (cp (CHR ''-'')) ([49, 1636] @ u ''-03-1925'')
     = Inr \<lparr>year = 1925, month = 3, day = 14, hour = 0, minute = 0\<rparr>
   \<and> day_first_reading (cp (CHR ''-'')) ([1632, 1636] @ u ''-03-1925'')
     = Inl (ValueError (u ''time data does not match format''))"
  by code_simp


subsection \<open>Header reading\<close>

lemma is_fields_comment: "is_fields line \<Longrightarrow> is_comment line"
  by (cases line) (auto simp: is_fields_def is_comment_def startswith_def)

lemma startswith_contains: "startswith sub s \<Longrightarrow> contains sub s"
  by (cases s) (auto simp: startswith_def)

lemma contains_iff: "contains sub s \<longleftrightarrow> (\<exists>pre post. s = pre @ sub @ post)"
proof
  show "contains sub s \<Longrightarrow> \<exists>pre post. s = pre @ sub @ post"
  proof (induction s)
    case Nil
    then show ?case by simp
  next
    case (Cons c cs)
    show ?case
    proof (cases "startswith sub (c # cs)")
      case True
      from take_drop_prefix [OF this] have "c # cs = [] @ sub @ drop (length sub) (c # cs)" by simp
      then show ?thesis by blast
    next
      case False
      with Cons obtain pre post where "cs = pre @ sub @ post" by auto
      then have "c # cs = (c # pre) @ sub @ post" by simp
      then show ?thesis by blast
    qed
  qed
next
  assume "\<exists>pre post. s = pre @ sub @ post"
  then obtain pre post where s: "s = pre @ sub @ post" by blast
  have "contains sub (pre @ sub @ post)"
  proof (induction pre)
    case Nil
    show ?case by (rule startswith_contains) (simp add: startswith_def)
  next
    case (Cons a pre)
    then show ?case by simp
  qed
  with s show "contains sub s" by simp
qed

lemma strip_around:
  assumes "sub \<noteq> []" "\<not> isspace (hd sub)" "\<not> isspace (last sub)"
  shows "strip (pre @ sub @ post) = lstrip pre @ sub @ rstrip post"
proof -
  from assms(1,2) have l: "dropWhile isspace (sub @ post) = sub @ post"
    by (cases sub) auto
  have "lstrip (pre @ sub @ post) = lstrip pre @ sub @ post"
    using l by (simp add: lstrip_def dropWhile_append)
  moreover have "rstrip (x @ sub @ post) = x @ sub @ rstrip post" for x
  proof -
    from assms(1,3) have "dropWhile isspace (rev sub @ rev x) = rev sub @ rev x"
      by (cases sub rule: rev_cases) auto
    then show ?thesis
      by (simp add: rstrip_def dropWhile_append)
  qed
  ultimately show ?thesis by (simp add: strip_def)
qed

lemma contains_strip:
  assumes "contains sub s" "sub \<noteq> []" "\<not> isspace (hd sub)" "\<not> isspace (last sub)"
  shows "contains sub (strip s)"
proof -
  from assms(1) obtain pre post where "s = pre @ sub @ post"
    unfolding contains_iff by blast
  with strip_around [OF assms(2-4)] show ?thesis
    unfolding contains_iff by metis
qed

lemma split_two_parts:
  "sub \<noteq> [] \<Longrightarrow> contains sub s \<Longrightarrow> \<exists>a b rest. split sub s = a # b # rest"
proof (induction sub s rule: split.induct)
  case (1 sep)
  then show ?case by simp
next
  case (2 sep c cs)
  show ?case
  proof (cases "startswith sep (c # cs)")
    case True
    obtain b rest where "split sep (drop (length sep) (c # cs)) = b # rest"
      using split_nonempty [of sep "drop (length sep) (c # cs)"]
      by (cases "split sep (drop (length sep) (c # cs))") auto
    with True 2(3) show ?thesis by simp
  next
    case False
    with 2 obtain a b rest where "split sep cs = a # b # rest" by auto
    with False show ?thesis by simp
  qed
qed

lemma station_value_ok:
  assumes "declares_station line"
  shows "index1 (split (u ''station_name='') (strip line)) = Inr (station_value line)"
proof -
  have "contains (u ''station_name='') (strip line)"
    using assms unfolding declares_station_def
    by (rule contains_strip) (simp_all add: isspace_ascii)
  from split_two_parts [OF _ this] obtain a b rest
    where "split (u ''station_name='') (strip line) = a # b # rest" by auto
  then show ?thesis by (simp add: station_value_def)
qed

text \<open>What the loop of the header reader returns, for any lines.\<close>

lemma header_block_Nil: "header_block [] = []"
  by (simp add: header_block_def)

lemma header_block_Cons:
  "header_block (line # rest) =
     (if \<not> is_comment line then []
      else if is_fields line then [line]
      else line # header_block rest)"
  by (simp add: header_block_def Let_def is_fields_comment)

lemma fields_line_of_Cons:
  "fields_line_of (line # rest) =
     (if \<not> is_comment line then None
      else if is_fields line then Some line
      else fields_line_of rest)"
  by (simp add: fields_line_of_def)

lemma header_loop_result:
  "header_loop lines st =
     Inr (case filter declares_station (header_block lines) of
            [] \<Rightarrow> st
          | d # ds \<Rightarrow> Some (station_value (last (d # ds))),
          map_option strip (fields_line_of lines))"
proof (induction lines arbitrary: st)
  case Nil
  show ?case by (simp add: header_block_Nil fields_line_of_def)
next
  case (Cons line rest)
  show ?case
  proof (cases "is_comment line")
    case False
    then show ?thesis
      by (simp add: header_block_Cons fields_line_of_Cons is_comment_def)
  next
    case True
    note c = True [unfolded is_comment_def]
    show ?thesis
    proof (cases "declares_station line")
      case ds: True
      note v = station_value_ok [OF ds]
      show ?thesis
        using True c ds [unfolded declares_station_def] v
        by (cases "is_fields line")
          (simp_all add: Cons.IH header_block_Cons fields_line_of_Cons ds
             is_fields_def [symmetric, simplified] split: list.splits)
    next
      case nds: False
      show ?thesis
        using True c nds [unfolded declares_station_def]
        by (cases "is_fields line")
          (simp_all add: Cons.IH header_block_Cons fields_line_of_Cons nds
             is_fields_def [symmetric, simplified] split: list.splits)
    qed
  qed
qed

lemma strip_fields_line:
  assumes "is_fields fl"
  shows "strip fl = (u ''# fields='') @ rstrip (drop (length (u ''# fields='')) fl)"
proof -
  from assms have "fl = (u ''# fields='') @ drop (length (u ''# fields='')) fl"
    using take_drop_prefix [of "(u ''# fields='')" fl] unfolding is_fields_def by blast
  then have "strip fl = strip ([] @ (u ''# fields='') @ drop (length (u ''# fields='')) fl)"
    by (simp only: append_Nil)
  also have "\<dots> = lstrip [] @ (u ''# fields='') @ rstrip (drop (length (u ''# fields='')) fl)"
    by (rule strip_around) (simp_all add: isspace_ascii)
  finally show ?thesis by (simp only: lstrip_def dropWhile.simps append_Nil)
qed

lemma read_header_missing:
  "fields_line_of lines = None \<Longrightarrow> read_header p lines = Inl (missing_header p)"
  by (simp add: read_header_def header_loop_result)

lemma read_header_found:
  assumes "fields_line_of lines = Some fl"
  shows "\<exists>sep cols. read_header p lines = Inr (station_label p lines, sep, cols)"
proof -
  from assms have "is_fields fl"
    unfolding fields_line_of_def by (auto simp: find_Some_iff)
  note s = strip_fields_line [OF this]
  obtain sep where sep: "detect_separator (strip fl) = Inr sep"
    unfolding s detect_separator_fields by blast
  have idx: "index1 (split1 (u ''fields='') (strip fl)) = Inr (rstrip (drop (length (u ''# fields='')) fl))"
    unfolding s by (rule index1_fields)
  show ?thesis
    unfolding read_header_def header_loop_result assms
    by (simp add: sep idx [simplified] station_label_def Let_def split: list.splits)
qed

lemma read_header_fails_iff:
  "(\<exists>e. read_header p lines = Inl e) \<longleftrightarrow> fields_line_of lines = None"
proof (cases "fields_line_of lines")
  case None
  with read_header_missing [OF None, of p] show ?thesis by simp
next
  case (Some fl)
  with read_header_found [OF Some, of p] show ?thesis by auto
qed

lemma header_block_stops:
  "fields_line_of lines = Some fl \<Longrightarrow>
     header_block (header_block lines @ rest) = header_block lines
     \<and> fields_line_of (header_block lines @ rest) = Some fl"
proof (induction lines)
  case Nil
  then show ?case by (simp add: fields_line_of_def)
next
  case (Cons line lines)
  then show ?case
    by (cases "is_comment line"; cases "is_fields line")
       (simp_all add: header_block_Cons fields_line_of_Cons)
qed

lemma read_header_block:
  assumes "fields_line_of lines = Some fl"
  shows "read_header p (header_block lines @ rest) = read_header p lines"
  using header_block_stops [OF assms, of rest]
  by (simp add: read_header_def header_loop_result assms)

lemma header_block_explicit:
  assumes "\<forall>l \<in> set pre. is_comment l \<and> \<not> is_fields l" and "is_fields fl"
  shows "header_block (pre @ fl # rest) = pre @ [fl] \<and> fields_line_of (pre @ fl # rest) = Some fl"
  using assms by (induction pre) (simp_all add: header_block_Cons fields_line_of_Cons is_fields_comment)

subsection \<open>Tables through the loader\<close>

lemma index_of_None: "index_of cs k = None \<longleftrightarrow> k \<notin> set cs"
  by (induction cs) auto

lemma index_of_Some: "index_of cs k = Some i \<Longrightarrow> i < length cs \<and> cs ! i = k"
  by (induction cs arbitrary: i) (auto split: if_splits)

lemma index_of_in: "k \<in> set cs \<Longrightarrow> \<exists>i. index_of cs k = Some i"
  using index_of_None [of cs k] by (cases "index_of cs k") auto

lemma columns_set_col:
  "columns (set_col k vals df) = (if k \<in> set (columns df) then columns df else columns df @ [k])"
  using index_of_None [of "columns df" k]
  by (cases "index_of (columns df) k") (auto simp: set_col_def)

lemma get_col_None: "get_col df k = None \<longleftrightarrow> k \<notin> set (columns df)"
  by (simp add: get_col_def index_of_None)

lemma length_get_col: "get_col df k = Some col \<Longrightarrow> length col = length (rows df)"
  by (auto simp: get_col_def)

text \<open>A table is well formed when every row has one cell for each column.\<close>

lemma wf_set_col:
  assumes "\<forall>r \<in> set (rows df). length r = length (columns df)"
  shows "\<forall>r \<in> set (rows (set_col k vals df)). length r = length (columns (set_col k vals df))"
proof (cases "index_of (columns df) k")
  case None
  then show ?thesis
    using assms by (auto simp: set_col_def dest!: set_zip_leftD)
next
  case (Some i)
  then show ?thesis
    using assms by (auto simp: set_col_def dest!: set_zip_leftD)
qed

lemma length_rows_set_col:
  "length vals = length (rows df) \<Longrightarrow> length (rows (set_col k vals df)) = length (rows df)"
  by (cases "index_of (columns df) k") (auto simp: set_col_def)

lemma apply_col_error: "apply_col f col = Inl e \<Longrightarrow> \<exists>c. f c = Inl e"
  by (induction col) (auto split: sum.splits)

lemma apply_col_length: "apply_col f col = Inr vals \<Longrightarrow> length vals = length col"
  by (induction col arbitrary: vals) (auto split: sum.splits)

lemma apply_col_total:
  assumes "\<And>c. \<exists>v. f c = Inr v"
  shows "\<exists>vals. apply_col f col = Inr vals"
proof (induction col)
  case Nil
  show ?case by simp
next
  case (Cons c col)
  from assms [of c] obtain v where "f c = Inr v" by blast
  with Cons show ?case by auto
qed

lemma set_col_shape:
  assumes "k \<in> set (columns df)" and "length vals = length (rows df)"
  shows "columns (set_col k vals df) = columns df
      \<and> length (rows (set_col k vals df)) = length (rows df)
      \<and> ((\<forall>r \<in> set (rows df). length r = length (columns df))
           \<longrightarrow> (\<forall>r \<in> set (rows (set_col k vals df)).
                  length r = length (columns (set_col k vals df))))"
proof (intro conjI impI)
  show "columns (set_col k vals df) = columns df"
    using assms(1) by (simp add: columns_set_col)
  show "length (rows (set_col k vals df)) = length (rows df)"
    using assms(2) by (rule length_rows_set_col)
  show "\<forall>r \<in> set (rows (set_col k vals df)). length r = length (columns (set_col k vals df))"
    if "\<forall>r \<in> set (rows df). length r = length (columns df)"
    using that by (rule wf_set_col)
qed

lemma coerce_column_ok:
  "\<exists>df'. coerce_column num c df = Inr df' \<and> columns df' = columns df
      \<and> length (rows df') = length (rows df)
      \<and> ((\<forall>r \<in> set (rows df). length r = length (columns df))
           \<longrightarrow> (\<forall>r \<in> set (rows df'). length r = length (columns df')))"
proof (cases "get_col df c")
  case None
  then have "coerce_column num c df = Inr df" by (simp add: coerce_column_def)
  then show ?thesis by blast
next
  case (Some col)
  then have in_cols: "c \<in> set (columns df)"
    using get_col_None [of df c] by auto
  have "\<exists>v. map_sum id float_cell (parse_float_messy (cell_text x)) = Inr v" for x
    using parse_float_messy_total [of "cell_text x"] by auto
  from apply_col_total [of "\<lambda>x. map_sum id float_cell (parse_float_messy (cell_text x))" col, OF this]
  obtain vals where vals: "apply_col (\<lambda>x. map_sum id float_cell (parse_float_messy (cell_text x))) col = Inr vals"
    by blast
  have len: "length vals = length (rows df)"
    using apply_col_length [OF vals] length_get_col [OF Some] by simp
  have len': "length (map (\<lambda>x. to_numeric num (str_replace_comma x)) col) = length (rows df)"
    using length_get_col [OF Some] by simp
  show ?thesis
  proof (cases "c = (u ''precip_24h_mm'')")
    case True
    have "coerce_column num c df = Inr (set_col c vals df)"
      unfolding coerce_column_def Some using vals True by simp
    with set_col_shape [OF in_cols len] show ?thesis by blast
  next
    case False
    have "coerce_column num c df = Inr (set_col c (map (\<lambda>x. to_numeric num (str_replace_comma x)) col) df)"
      unfolding coerce_column_def Some using False by simp
    with set_col_shape [OF in_cols len'] show ?thesis by blast
  qed
qed

lemma coerce_columns_ok:
  "\<exists>df'. coerce_columns num cs df = Inr df' \<and> columns df' = columns df
      \<and> length (rows df') = length (rows df)
      \<and> ((\<forall>r \<in> set (rows df). length r = length (columns df))
           \<longrightarrow> (\<forall>r \<in> set (rows df'). length r = length (columns df')))"
proof (induction cs arbitrary: df)
  case Nil
  have "coerce_columns num [] df = Inr df" by simp
  then show ?case by blast
next
  case (Cons c cs)
  from coerce_column_ok [of num c df] obtain df1 where
    1: "coerce_column num c df = Inr df1" and c1: "columns df1 = columns df"
      and l1: "length (rows df1) = length (rows df)"
      and w1: "(\<forall>r \<in> set (rows df). length r = length (columns df))
           \<longrightarrow> (\<forall>r \<in> set (rows df1). length r = length (columns df1))"
    by blast
  from Cons [of df1] obtain df2 where
    2: "coerce_columns num cs df1 = Inr df2" and c2: "columns df2 = columns df1"
      and l2: "length (rows df2) = length (rows df1)"
      and w2: "(\<forall>r \<in> set (rows df1). length r = length (columns df1))
           \<longrightarrow> (\<forall>r \<in> set (rows df2). length r = length (columns df2))"
    by blast
  have "coerce_columns num (c # cs) df = Inr df2" using 1 2 by simp
  moreover have "columns df2 = columns df" using c1 c2 by simp
  moreover have "length (rows df2) = length (rows df)" using l1 l2 by simp
  moreover have "(\<forall>r \<in> set (rows df). length r = length (columns df))
           \<longrightarrow> (\<forall>r \<in> set (rows df2). length r = length (columns df2))"
    using w1 w2 by blast
  ultimately show ?case by blast
qed

lemma tokenize_line_length:
  assumes "cols \<noteq> []"
  shows "length (tokenize_line sep cols line) = length cols"
proof -
  have pos: "0 < length cols" using assms by simp
  then show ?thesis
    by (auto simp: tokenize_line_def Let_def slice_upto_def slice_from_def nat_diff_distrib')
qed

lemma wf_read_rows_raw:
  "cols \<noteq> [] \<Longrightarrow> \<forall>r \<in> set (rows (replace_na (read_rows_raw lines sep cols))). length r = length cols"
  by (auto simp: read_rows_raw_def replace_na_def tokenize_line_length)

lemma parse_date_any_error:
  assumes "parse_date_any x = Inl e"
  shows "e = ValueError (u ''hour must be in 0..23'') \<or> e = ValueError (u ''minute must be in 0..59'')"
proof (cases x)
  case None
  with assms show ?thesis by (simp add: parse_date_any_def)
next
  case (Some s)
  with assms show ?thesis
    by (auto simp: parse_date_any_portions replace_hour_minute_def split: option.splits if_splits)
qed

lemma add_timestamp_error:
  assumes "add_timestamp df = Inl e"
  shows "e = ValueError (u ''hour must be in 0..23'') \<or> e = ValueError (u ''minute must be in 0..59'')"
proof -
  from assms obtain col where
    "apply_col (\<lambda>x. map_sum id timestamp_cell (parse_date_any (cell_text x))) col = Inl e"
    by (auto simp: add_timestamp_def split: option.splits sum.splits)
  from apply_col_error [OF this] obtain c where
    "map_sum id timestamp_cell (parse_date_any (cell_text c)) = Inl e" by blast
  then have "parse_date_any (cell_text c) = Inl e"
    by (cases "parse_date_any (cell_text c)") auto
  then show ?thesis by (rule parse_date_any_error)
qed

lemma add_timestamp_ok:
  assumes "add_timestamp df = Inr df'"
  shows "columns df' = (if (u ''timestamp'') \<in> set (columns df) then columns df
                        else columns df @ [u ''timestamp''])"
    and "length (rows df') = length (rows df)"
    and "(\<forall>r \<in> set (rows df). length r = length (columns df))
           \<Longrightarrow> (\<forall>r \<in> set (rows df'). length r = length (columns df'))"
proof -
  from assms obtain vals where df': "df' = set_col (u ''timestamp'') vals df"
    and len: "length vals = length (rows df)"
    by (auto simp: add_timestamp_def broadcast_def split: option.splits sum.splits
        dest!: apply_col_length length_get_col)
  show "columns df' = (if (u ''timestamp'') \<in> set (columns df) then columns df
                        else columns df @ [u ''timestamp''])"
    unfolding df' by (rule columns_set_col)
  show "length (rows df') = length (rows df)"
    unfolding df' using len by (rule length_rows_set_col)
  show "(\<forall>r \<in> set (rows df). length r = length (columns df))
           \<Longrightarrow> (\<forall>r \<in> set (rows df'). length r = length (columns df'))"
    unfolding df' by (rule wf_set_col)
qed

text \<open>A column assigned row by row: the rows of the table after the assignment.\<close>

lemma set_col_map:
  assumes "rows df = map F B"
  shows "rows (set_col k (map g B) df) =
     map (\<lambda>x. case index_of (columns df) k of
                 Some i \<Rightarrow> (F x)[i := g x]
               | None \<Rightarrow> F x @ [g x]) B"
  by (cases "index_of (columns df) k")
     (simp_all add: set_col_def assms zip_map_map zip_same_conv_map)

lemma col_or_nan_map:
  "(case get_col df k of Some col \<Rightarrow> col | None \<Rightarrow> broadcast df NaN)
     = map (\<lambda>r. cell_at df r k) (rows df)"
  by (cases "index_of (columns df) k") (simp_all add: get_col_def cell_at_def broadcast_def map_replicate_const)

lemma get_col_map:
  "get_col df k = Some col \<Longrightarrow> col = map (\<lambda>r. cell_at df r k) (rows df)"
  by (auto simp: get_col_def cell_at_def)

lemma index_of_append_new: "k \<notin> set cs \<Longrightarrow> index_of (cs @ [k]) k = Some (length cs)"
  by (induction cs) auto

text \<open>After the station label is assigned, every row holds it in the station column.\<close>

lemma station_stamped:
  assumes wf: "\<forall>r \<in> set (rows df). length r = length (columns df)"
    and df3: "df3 = set_col k (broadcast df (Str label)) df"
    and r: "r \<in> set (rows df3)"
  shows "cell_at df3 r k = Str label"
proof -
  have b: "broadcast df (Str label) = map (\<lambda>_. Str label) (rows df)"
    by (simp add: broadcast_def map_replicate_const)
  have rows3: "rows df3 = map (\<lambda>x. case index_of (columns df) k of
                 Some i \<Rightarrow> x[i := Str label]
               | None \<Rightarrow> x @ [Str label]) (rows df)"
    unfolding df3 b using set_col_map [of df "\<lambda>x. x" "rows df" "k" "\<lambda>_. Str label"]
    by simp
  show ?thesis
  proof (cases "index_of (columns df) k")
    case None
    then have notin: "k \<notin> set (columns df)" by (simp add: index_of_None)
    then have cols3: "columns df3 = columns df @ [k]"
      unfolding df3 by (simp add: columns_set_col)
    from r rows3 None obtain x where x: "x \<in> set (rows df)" "r = x @ [Str label]" by auto
    with wf have "length x = length (columns df)" by simp
    then have "(x @ [Str label]) ! length (columns df) = Str label"
      by (metis nth_append_length)
    then show ?thesis
      using x by (simp add: cell_at_def cols3 index_of_append_new [OF notin])
  next
    case (Some i)
    then have "k \<in> set (columns df)"
      using index_of_None [of "columns df" "k"] by auto
    then have cols3: "columns df3 = columns df"
      unfolding df3 by (simp add: columns_set_col)
    from r rows3 Some obtain x where x: "x \<in> set (rows df)" "r = x[i := Str label]" by auto
    with wf index_of_Some [OF Some] have "i < length x" by simp
    then show ?thesis
      using x by (simp add: cell_at_def cols3 Some)
  qed
qed

lemma set_col_literal:
  "set_col k (map g B) \<lparr>columns = cols, rows = map F B\<rparr> =
     \<lparr>columns = (if k \<in> set cols then cols else cols @ [k]),
      rows = map (\<lambda>x. case index_of cols k of
                         Some i \<Rightarrow> (F x)[i := g x]
                       | None \<Rightarrow> F x @ [g x]) B\<rparr>"
  using index_of_None [of cols k]
  by (cases "index_of cols k") (auto simp: set_col_def zip_map_map zip_same_conv_map)

lemma assemble_literal:
  "assemble df =
     \<lparr>columns = [u ''station'', u ''t_max_c'', u ''t_min_c'', u ''precip_24h_mm'', u ''precip_type'',
                 u ''present_weather_code'', u ''notes''],
      rows = map (\<lambda>r. [cell_at df r (u ''station''), cell_at df r (u ''t_max_c''),
                        cell_at df r (u ''t_min_c''), cell_at df r (u ''precip_24h_mm''),
                        cell_at df r (u ''precip_type''), cell_at df r (u ''present_weather_code''),
                        cell_at df r (u ''notes'')]) (rows df)\<rparr>"
proof -
  have init: "replicate (length (rows df)) ([]::cell list) = map (\<lambda>_. []) (rows df)"
    by (simp add: map_replicate_const)
  show ?thesis
    unfolding assemble_def KEEP_COLS_def col_or_nan_map init
    by (simp add: set_col_literal)
qed

lemma output_literal:
  assumes ts: "get_col df (u ''timestamp'') = Some ts"
    and codes: "get_col df (u ''present_weather_code'') = Some col"
    and out4: "out4 = set_col (u ''present_weather_code'') (map (integer_code num) col)
                 (set_col (u ''time'') (map time_of ts)
                   (set_col (u ''date'') (map date_of ts)
                     (set_col (u ''timestamp'') ts (assemble df))))"
  shows "select_cols (filter (\<lambda>c. c \<in> set (columns out4)) KEEP_COLS) out4 =
     Inr \<lparr>columns = KEEP_COLS, rows = map (canonical_row num df) (rows df)\<rparr>"
proof -
  note t = get_col_map [OF ts]
  note c = get_col_map [OF codes]
  have "out4 =
     \<lparr>columns = [u ''station'', u ''t_max_c'', u ''t_min_c'', u ''precip_24h_mm'', u ''precip_type'',
                 u ''present_weather_code'', u ''notes'', u ''timestamp'', u ''date'', u ''time''],
      rows = map (\<lambda>r. [cell_at df r (u ''station''), cell_at df r (u ''t_max_c''),
                        cell_at df r (u ''t_min_c''), cell_at df r (u ''precip_24h_mm''),
                        cell_at df r (u ''precip_type''),
                        integer_code num (cell_at df r (u ''present_weather_code'')),
                        cell_at df r (u ''notes''), cell_at df r (u ''timestamp''),
                        date_of (cell_at df r (u ''timestamp'')),
                        time_of (cell_at df r (u ''timestamp''))]) (rows df)\<rparr>"
    unfolding out4 assemble_literal t c map_map
    by (simp add: set_col_literal comp_def)
  then show ?thesis
    by (simp add: select_cols_def KEEP_COLS_def canonical_row_def)
qed

lemma index_of_append_old: "k \<in> set cs \<Longrightarrow> index_of (cs @ ys) k = index_of cs k"
  by (induction cs) auto

text \<open>
  A row of a table after a column assignment comes from a row of the table before it:
  it holds one of the assigned values in the assigned column and the old cells in the
  other columns.
\<close>

lemma set_col_rows_cases:
  assumes wf: "\<forall>r \<in> set (rows df). length r = length (columns df)"
    and r: "r \<in> set (rows (set_col k vals df))"
  shows "\<exists>x v. x \<in> set (rows df) \<and> v \<in> set vals
      \<and> cell_at (set_col k vals df) r k = v
      \<and> (\<forall>k'. k' \<noteq> k \<longrightarrow> k' \<in> set (columns df) \<longrightarrow>
             cell_at (set_col k vals df) r k' = cell_at df x k')"
proof (cases "index_of (columns df) k")
  case None
  then have notin: "k \<notin> set (columns df)" by (simp add: index_of_None)
  have cols: "columns (set_col k vals df) = columns df @ [k]"
    using notin by (simp add: columns_set_col)
  from r None obtain x v where xv: "(x, v) \<in> set (zip (rows df) vals)" "r = x @ [v]"
    by (auto simp: set_col_def)
  then have x: "x \<in> set (rows df)" and v: "v \<in> set vals"
    by (auto dest: set_zip_leftD set_zip_rightD)
  with wf have len: "length x = length (columns df)" by simp
  have "(x @ [v]) ! length (columns df) = v"
    using len by (metis nth_append_length)
  then have a: "cell_at (set_col k vals df) r k = v"
    by (simp add: cell_at_def cols index_of_append_new [OF notin] xv(2))
  have b: "cell_at (set_col k vals df) r k' = cell_at df x k'"
    if "k' \<in> set (columns df)" for k'
  proof -
    from index_of_in [OF that] obtain j where j: "index_of (columns df) k' = Some j" by blast
    with index_of_Some [OF j] len have "j < length x" by simp
    then show ?thesis
      by (simp add: cell_at_def cols index_of_append_old [OF that] j xv(2) nth_append)
  qed
  from x v a b show ?thesis by blast
next
  case (Some i)
  then have "k \<in> set (columns df)"
    using index_of_None [of "columns df" k] by auto
  then have cols: "columns (set_col k vals df) = columns df"
    by (simp add: columns_set_col)
  from r Some obtain x v where xv: "(x, v) \<in> set (zip (rows df) vals)" "r = x[i := v]"
    by (auto simp: set_col_def)
  then have x: "x \<in> set (rows df)" and v: "v \<in> set vals"
    by (auto dest: set_zip_leftD set_zip_rightD)
  with wf have len: "length x = length (columns df)" by simp
  note i = index_of_Some [OF Some]
  have a: "cell_at (set_col k vals df) r k = v"
    using i len by (simp add: cell_at_def cols Some xv(2))
  have b: "cell_at (set_col k vals df) r k' = cell_at df x k'"
    if "k' \<noteq> k" "k' \<in> set (columns df)" for k'
  proof -
    from index_of_in [OF that(2)] obtain j where j: "index_of (columns df) k' = Some j" by blast
    from index_of_Some [OF j] i that(1) have "i \<noteq> j" by auto
    then show ?thesis
      by (simp add: cell_at_def cols j xv(2))
  qed
  from x v a b show ?thesis by blast
qed

lemma apply_col_values: "apply_col f col = Inr vals \<Longrightarrow> \<forall>v \<in> set vals. \<exists>c. f c = Inr v"
proof (induction col arbitrary: vals)
  case Nil
  then show ?case by simp
next
  case (Cons c col)
  then show ?case by (auto split: sum.splits)
qed

lemma add_timestamp_vals:
  assumes "add_timestamp df = Inr df'"
  shows "\<exists>vals. df' = set_col (u ''timestamp'') vals df
      \<and> (\<forall>v \<in> set vals. v = NaN \<or> (\<exists>dt. v = TS dt))"
proof (cases "get_col df (u ''date'')")
  case None
  with assms have "df' = set_col (u ''timestamp'') (broadcast df NaN) df"
    by (simp add: add_timestamp_def)
  moreover have "\<forall>v \<in> set (broadcast df NaN). v = NaN \<or> (\<exists>dt. v = TS dt)"
    by (simp add: broadcast_def)
  ultimately show ?thesis by blast
next
  case (Some col)
  with assms obtain vals where
    ap: "apply_col (\<lambda>x. map_sum id timestamp_cell (parse_date_any (cell_text x))) col = Inr vals"
    and df': "df' = set_col (u ''timestamp'') vals df"
    by (auto simp: add_timestamp_def split: sum.splits)
  have "v = NaN \<or> (\<exists>dt. v = TS dt)" if "v \<in> set vals" for v
  proof -
    from apply_col_values [OF ap] that obtain c where
      "map_sum id timestamp_cell (parse_date_any (cell_text c)) = Inr v" by blast
    then obtain t where "v = timestamp_cell t"
      by (cases "parse_date_any (cell_text c)") auto
    then show ?thesis by (cases t) (simp_all add: timestamp_cell_def)
  qed
  with df' show ?thesis by blast
qed

text \<open>
  The four ways \<^verbatim>\<open>load_one\<close> ends once the header is read: a clock text out of range in
  a date cell raises; a file without the weather-code column raises at the cast of the
  codes; a file with a weather code outside the 64-bit integers raises at that cast
  too; any other file gives the ten canonical columns, one canonical record for each
  data line.
\<close>

lemma load_one_cases:
  assumes hdr: "read_header p lines = Inr (label, sep, cols)"
  shows "(\<exists>e. load_one num p lines = Inl e
            \<and> (e = ValueError (u ''hour must be in 0..23'') \<or> e = ValueError (u ''minute must be in 0..59'')))
       \<or> (u ''present_weather_code'' \<notin> set cols
            \<and> load_one num p lines = Inl (TypeError (u ''data type Int64 not understood'')))
       \<or> (u ''present_weather_code'' \<in> set cols
            \<and> load_one num p lines =
                  Inl (TypeError (u ''cannot safely cast non-equivalent float64 to int64'')))
       \<or> (u ''present_weather_code'' \<in> set cols
            \<and> (\<exists>df3. load_one num p lines =
                        Inr \<lparr>columns = KEEP_COLS, rows = map (canonical_row num df3) (rows df3)\<rparr>
                  \<and> set (columns df3) = set cols \<union> {(u ''timestamp''), u ''station''}
                  \<and> (\<forall>r \<in> set (rows df3). cell_at df3 r (u ''station'') = Str label)
                  \<and> (\<forall>r \<in> set (rows df3). cell_at df3 r (u ''timestamp'') = NaN
                          \<or> (\<exists>dt. cell_at df3 r (u ''timestamp'') = TS dt))
                  \<and> length (rows df3) = length (filter (\<lambda>l. \<not> startswith (u ''#'') l) lines)))"
proof -
  define df where "df = replace_na (read_rows_raw lines sep cols)"
  have cols_ne: "cols \<noteq> []" using hdr by (rule read_header_cols_nonempty)
  have cdf: "columns df = cols" by (simp add: df_def replace_na_def read_rows_raw_def)
  have ldf: "length (rows df) = length (filter (\<lambda>l. \<not> startswith (u ''#'') l) lines)"
    by (simp add: df_def replace_na_def read_rows_raw_def)
  have wdf: "\<forall>r \<in> set (rows df). length r = length (columns df)"
    using wf_read_rows_raw [OF cols_ne, of lines sep] cdf by (simp add: df_def)
  from coerce_columns_ok [of num "[u ''t_max_c'', u ''t_min_c'', u ''precip_24h_mm'', u ''present_weather_code'']" df]
  obtain df1 where
    1: "coerce_columns num [u ''t_max_c'', u ''t_min_c'', u ''precip_24h_mm'', u ''present_weather_code''] df = Inr df1"
    and c1: "columns df1 = cols" and l1: "length (rows df1) = length (rows df)"
    and w1: "\<forall>r \<in> set (rows df1). length r = length (columns df1)"
    using cdf wdf by auto
  have start: "load_one num p lines =
     (case add_timestamp df1 of
        Inl e \<Rightarrow> Inl e
      | Inr df2 \<Rightarrow>
     (let df3 = set_col (u ''station'') (broadcast df2 (Str label)) df2;
          out0 = assemble df3
      in case the_col df3 (u ''timestamp'') of
        Inl e \<Rightarrow> Inl e
      | Inr ts \<Rightarrow>
     (let out1 = set_col (u ''timestamp'') ts out0;
          out2 = set_col (u ''date'') (map date_of ts) out1;
          out3 = set_col (u ''time'') (map time_of ts) out2
      in case cast_codes num df3 out3 of
        Inl e \<Rightarrow> Inl e
      | Inr out4 \<Rightarrow>
          select_cols (filter (\<lambda>c. c \<in> set (columns out4)) KEEP_COLS) out4)))"
    unfolding load_one_def hdr by (simp only: sum.case prod.case Let_def df_def [symmetric] 1)
  show ?thesis
  proof (cases "add_timestamp df1")
    case (Inl e)
    from add_timestamp_error [OF Inl] start Inl show ?thesis by simp
  next
    case (Inr df2)
    note c2 = add_timestamp_ok(1) [OF Inr]
    note l2 = add_timestamp_ok(2) [OF Inr]
    note w2 = add_timestamp_ok(3) [OF Inr w1]
    define df3 where "df3 = set_col (u ''station'') (broadcast df2 (Str label)) df2"
    have c3: "set (columns df3) = set cols \<union> {(u ''timestamp''), u ''station''}"
      unfolding df3_def columns_set_col c2 c1 by auto
    have l3: "length (rows df3) = length (filter (\<lambda>l. \<not> startswith (u ''#'') l) lines)"
      unfolding df3_def using l2 l1 ldf by (simp add: length_rows_set_col broadcast_def)
    have st: "\<forall>r \<in> set (rows df3). cell_at df3 r (u ''station'') = Str label"
      using station_stamped [OF w2 df3_def] by blast
    from add_timestamp_vals [OF Inr] obtain vals where
      df2: "df2 = set_col (u ''timestamp'') vals df1"
      and vals: "\<forall>v \<in> set vals. v = NaN \<or> (\<exists>dt. v = TS dt)"
      by blast
    have tin: "(u ''timestamp'') \<in> set (columns df2)"
      unfolding c2 by simp
    have tsv: "cell_at df3 r (u ''timestamp'') = NaN \<or> (\<exists>dt. cell_at df3 r (u ''timestamp'') = TS dt)"
      if "r \<in> set (rows df3)" for r
    proof -
      from set_col_rows_cases [OF w2 that [unfolded df3_def]] tin
      obtain x where x: "x \<in> set (rows df2)"
        and eq: "cell_at df3 r (u ''timestamp'') = cell_at df2 x (u ''timestamp'')"
        unfolding df3_def by auto
      from set_col_rows_cases [OF w1 x [unfolded df2]]
      obtain v where "v \<in> set vals" "cell_at df2 x (u ''timestamp'') = v"
        unfolding df2 by auto
      with vals eq show ?thesis by auto
    qed
    obtain ts where ts: "get_col df3 (u ''timestamp'') = Some ts"
      using c3 get_col_None [of df3 "(u ''timestamp'')"] by (cases "get_col df3 (u ''timestamp'')") auto
    have mid: "load_one num p lines =
       (case cast_codes num df3
               (set_col (u ''time'') (map time_of ts)
                 (set_col (u ''date'') (map date_of ts)
                   (set_col (u ''timestamp'') ts (assemble df3)))) of
          Inl e \<Rightarrow> Inl e
        | Inr out4 \<Rightarrow> select_cols (filter (\<lambda>c. c \<in> set (columns out4)) KEEP_COLS) out4)"
      unfolding start Inr
      by (simp only: sum.case Let_def df3_def [symmetric] the_col_def ts option.case)
    show ?thesis
    proof (cases "get_col df3 (u ''present_weather_code'')")
      case None
      then have "(u ''present_weather_code'') \<notin> set cols"
        using c3 by (simp add: get_col_None)
      moreover have "load_one num p lines = Inl (TypeError (u ''data type Int64 not understood''))"
        unfolding mid cast_codes_def None by simp
      ultimately show ?thesis by blast
    next
      case (Some col)
      then have decl: "(u ''present_weather_code'') \<in> set cols"
        using c3 get_col_None [of df3 "(u ''present_weather_code'')"] by auto
      show ?thesis
      proof (cases "list_all int64_ok (map (integer_code num) col)")
        case True
        have "load_one num p lines =
            Inr \<lparr>columns = KEEP_COLS, rows = map (canonical_row num df3) (rows df3)\<rparr>"
          unfolding mid cast_codes_def Some
          using output_literal [OF ts Some refl, of num] True by (simp add: Let_def)
        with decl c3 st tsv l3 show ?thesis by blast
      next
        case False
        have "load_one num p lines =
            Inl (TypeError (u ''cannot safely cast non-equivalent float64 to int64''))"
          unfolding mid cast_codes_def Some using False by (simp add: Let_def)
        with decl show ?thesis by blast
      qed
    qed
  qed
qed

subsection \<open>The mandatory schema declaration\<close>

lemma last_header_block:
  "fields_line_of lines = Some fl \<Longrightarrow> last (header_block lines) = fl"
proof (induction lines)
  case Nil
  then show ?case by (simp add: fields_line_of_def)
next
  case (Cons line lines)
  show ?case
  proof (cases "is_comment line \<and> \<not> is_fields line")
    case True
    with Cons.prems have f: "fields_line_of lines = Some fl"
      by (simp add: fields_line_of_Cons)
    then have "header_block lines \<noteq> []"
      by (cases lines) (auto simp: fields_line_of_def header_block_Cons split: if_splits)
    with True Cons.IH [OF f] show ?thesis by (simp add: header_block_Cons)
  next
    case False
    with Cons.prems show ?thesis
      by (auto simp: fields_line_of_Cons header_block_Cons split: if_splits)
  qed
qed

lemma load_one_missing_iff:
  "load_one num p lines = Inl (missing_header p) \<longleftrightarrow> fields_line_of lines = None"
proof (cases "fields_line_of lines")
  case None
  from read_header_missing [OF this, of p] None show ?thesis
    by (simp add: load_one_def)
next
  case (Some fl)
  from read_header_found [OF this, of p] obtain sep cols
    where "read_header p lines = Inr (station_label p lines, sep, cols)" by blast
  from load_one_cases [OF this, of num] have "load_one num p lines \<noteq> Inl (missing_header p)"
  proof (elim disjE exE conjE)
    fix e assume "load_one num p lines = Inl e" "e = ValueError (u ''hour must be in 0..23'')"
    then show ?thesis by (simp add: missing_header_def)
  next
    fix e assume "load_one num p lines = Inl e" "e = ValueError (u ''minute must be in 0..59'')"
    then show ?thesis by (simp add: missing_header_def)
  next
    assume "load_one num p lines = Inl (TypeError (u ''data type Int64 not understood''))"
    then show ?thesis by (simp add: missing_header_def)
  next
    assume "load_one num p lines =
      Inl (TypeError (u ''cannot safely cast non-equivalent float64 to int64''))"
    then show ?thesis by (simp add: missing_header_def)
  next
    fix df3
    assume "load_one num p lines =
      Inr \<lparr>columns = KEEP_COLS, rows = map (canonical_row num df3) (rows df3)\<rparr>"
    then show ?thesis by simp
  qed
  with Some show ?thesis by simp
qed

text \<open>
  C4. Reading the header fails exactly when no line that starts with \<^verbatim>\<open># fields=\<close> stands
  among the leading comment lines of the file, and the error is then the ValueError
  whose message ends with the path of the file; \<^verbatim>\<open>load_one\<close> fails with that error in
  exactly the same case. When there is such a line, the header block ends with it and
  the result of reading the header is the same whatever lines follow the block: no
  later line is consulted.
\<close>

theorem read_header_fields_required:
  "((\<exists>e. read_header p lines = Inl e) \<longleftrightarrow> fields_line_of lines = None)
   \<and> (fields_line_of lines = None) = (filter is_fields (takeWhile is_comment lines) = [])
   \<and> (fields_line_of lines = None \<longrightarrow>
        read_header p lines =
          Inl (ValueError (u ''Missing '' @ [cp (CHR 0x27)] @ (u ''# fields='') @ [cp (CHR 0x27)] @ (u '' header in '') @ p)))
   \<and> (load_one num p lines =
          Inl (ValueError (u ''Missing '' @ [cp (CHR 0x27)] @ (u ''# fields='') @ [cp (CHR 0x27)] @ (u '' header in '') @ p))
        \<longleftrightarrow> fields_line_of lines = None)
   \<and> (fields_line_of lines = Some fl \<longrightarrow>
        is_fields fl \<and> last (header_block lines) = fl
        \<and> (\<exists>r. read_header p lines = Inr r)
        \<and> (\<forall>rest. read_header p (header_block lines @ rest) = read_header p lines))
   \<and> ((\<forall>l \<in> set pre. is_comment l \<and> \<not> is_fields l) \<and> is_fields fl \<longrightarrow>
        fields_line_of (pre @ fl # rest) = Some fl
        \<and> header_block (pre @ fl # rest) = pre @ [fl]
        \<and> read_header p (pre @ fl # rest) = read_header p (pre @ [fl]))"
proof (intro conjI impI allI)
  show "(\<exists>e. read_header p lines = Inl e) \<longleftrightarrow> fields_line_of lines = None"
    by (rule read_header_fails_iff)
  show "(fields_line_of lines = None) = (filter is_fields (takeWhile is_comment lines) = [])"
    by (auto simp: fields_line_of_def find_None_iff filter_empty_conv)
  show "read_header p lines =
          Inl (ValueError (u ''Missing '' @ [cp (CHR 0x27)] @ (u ''# fields='') @ [cp (CHR 0x27)] @ (u '' header in '') @ p))"
    if "fields_line_of lines = None"
    using read_header_missing [OF that, of p] by (simp add: missing_header_def)
  show "load_one num p lines =
          Inl (ValueError (u ''Missing '' @ [cp (CHR 0x27)] @ (u ''# fields='') @ [cp (CHR 0x27)] @ (u '' header in '') @ p))
        \<longleftrightarrow> fields_line_of lines = None"
    using load_one_missing_iff [of num p lines] by (simp add: missing_header_def)
  show "is_fields fl" if "fields_line_of lines = Some fl"
    using that unfolding fields_line_of_def by (auto simp: find_Some_iff)
  show "last (header_block lines) = fl" if "fields_line_of lines = Some fl"
    using that by (rule last_header_block)
  show "\<exists>r. read_header p lines = Inr r" if "fields_line_of lines = Some fl"
    using read_header_found [OF that, of p] by blast
  show "read_header p (header_block lines @ rest) = read_header p lines"
    if "fields_line_of lines = Some fl" for rest
    using that by (rule read_header_block)
  show "fields_line_of (pre @ fl # rest) = Some fl"
    if "(\<forall>l \<in> set pre. is_comment l \<and> \<not> is_fields l) \<and> is_fields fl"
    using header_block_explicit [of pre fl rest] that by blast
  show "header_block (pre @ fl # rest) = pre @ [fl]"
    if "(\<forall>l \<in> set pre. is_comment l \<and> \<not> is_fields l) \<and> is_fields fl"
    using header_block_explicit [of pre fl rest] that by blast
  show "read_header p (pre @ fl # rest) = read_header p (pre @ [fl])"
    if h: "(\<forall>l \<in> set pre. is_comment l \<and> \<not> is_fields l) \<and> is_fields fl"
  proof -
    from header_block_explicit [of pre fl rest] h
    have a: "fields_line_of (pre @ fl # rest) = Some fl" "header_block (pre @ fl # rest) = pre @ [fl]"
      by blast+
    from header_block_explicit [of pre fl "[]"] h
    have b: "fields_line_of (pre @ [fl]) = Some fl" "header_block (pre @ [fl]) = pre @ [fl]"
      by blast+
    show ?thesis
      by (simp add: read_header_def header_loop_result a b)
  qed
qed

theorem read_header_fields_required_witness:
  "fields_line_of [u ''# station_name=Riga'', u ''1925-03-04;3'', u ''# fields=date;t_max_c''] = None
   \<and> read_header (u ''data/riga.txt'') [u ''# station_name=Riga'', u ''1925-03-04;3'', u ''# fields=date;t_max_c'']
       = Inl (ValueError (u ''Missing '' @ [cp (CHR 0x27)] @ (u ''# fields='') @ [cp (CHR 0x27)] @ (u '' header in '') @ (u ''data/riga.txt'')))
   \<and> fields_line_of [u ''# station_name=Riga'', u ''# fields=date;t_max_c'', u ''1925-03-04;3'']
       = Some (u ''# fields=date;t_max_c'')
   \<and> read_header (u ''data/riga.txt'') [u ''# station_name=Riga'', u ''# fields=date;t_max_c'', u ''# station_name=Late'']
       = read_header (u ''data/riga.txt'') [u ''# station_name=Riga'', u ''# fields=date;t_max_c'']
   \<and> read_header (u ''data/riga.txt'') [u ''# station_name=Riga'', u ''# fields=date;t_max_c'']
       = Inr (u ''Riga'', u '';'', [u ''date'', u ''t_max_c''])"
proof -
  have a: "fields_line_of [u ''# station_name=Riga'', u ''1925-03-04;3'', u ''# fields=date;t_max_c''] = None"
    by code_simp
  have b: "fields_line_of [u ''# station_name=Riga'', u ''# fields=date;t_max_c'', u ''1925-03-04;3'']
       = Some (u ''# fields=date;t_max_c'')"
    by code_simp
  have c: "(\<forall>l \<in> set [u ''# station_name=Riga'']. is_comment l \<and> \<not> is_fields l)
           \<and> is_fields (u ''# fields=date;t_max_c'')"
    by (simp add: is_comment_def is_fields_def startswith_def)
  have d: "read_header (u ''data/riga.txt'') [u ''# station_name=Riga'', u ''# fields=date;t_max_c'']
       = Inr (u ''Riga'', u '';'', [u ''date'', u ''t_max_c''])"
    by code_simp
  note T = read_header_fields_required
         [of "(u ''data/riga.txt'')" "[u ''# station_name=Riga'', u ''1925-03-04;3'', u ''# fields=date;t_max_c'']"
             plain_decimal "(u ''# fields=date;t_max_c'')" "[u ''# station_name=Riga'']"
             "[u ''# station_name=Late'']"]
  from T a have w2: "read_header (u ''data/riga.txt'') [u ''# station_name=Riga'', u ''1925-03-04;3'', u ''# fields=date;t_max_c'']
       = Inl (ValueError (u ''Missing '' @ [cp (CHR 0x27)] @ (u ''# fields='') @ [cp (CHR 0x27)] @ (u '' header in '') @ (u ''data/riga.txt'')))"
    by blast
  from T c have "read_header (u ''data/riga.txt'') ([u ''# station_name=Riga''] @ (u ''# fields=date;t_max_c'') # [u ''# station_name=Late''])
       = read_header (u ''data/riga.txt'') ([u ''# station_name=Riga''] @ [u ''# fields=date;t_max_c''])"
    by blast
  then have w4: "read_header (u ''data/riga.txt'') [u ''# station_name=Riga'', u ''# fields=date;t_max_c'', u ''# station_name=Late'']
       = read_header (u ''data/riga.txt'') [u ''# station_name=Riga'', u ''# fields=date;t_max_c'']"
    by (simp only: append.simps)
  from a w2 b w4 d show ?thesis by (intro conjI)
qed

subsection \<open>The station label\<close>

lemma split_no_occurrence: "\<not> contains sub s \<Longrightarrow> split sub s = [s]"
  by (induction sub s rule: split.induct) auto

lemma station_value_plain:
  assumes "strip line = (u ''# station_name='') @ v" and "\<not> contains (u ''station_name='') v"
  shows "station_value line = v"
proof -
  have "split (u ''station_name='') (u ''# station_name='' @ v) = (u ''# '') # split (u ''station_name='') v"
    by (simp add: startswith_def)
  with assms show ?thesis by (simp add: station_value_def split_no_occurrence)
qed

lemma read_header_station:
  assumes "read_header p lines = Inr (label, sep, cols)"
  shows "label = station_label p lines"
proof (cases "fields_line_of lines")
  case None
  from read_header_missing [OF this, of p] assms show ?thesis by simp
next
  case (Some fl)
  from read_header_found [OF this, of p] assms show ?thesis by auto
qed

lemma load_one_stamps_station:
  assumes "read_header p lines = Inr (label, sep, cols)"
    and "load_one num p lines = Inr out"
  shows "columns out = KEEP_COLS \<and> (\<forall>r \<in> set (rows out). r ! 0 = Str label)"
  using load_one_cases [OF assms(1), of num]
proof (elim disjE exE conjE)
  fix df3
  assume "load_one num p lines =
      Inr \<lparr>columns = KEEP_COLS, rows = map (canonical_row num df3) (rows df3)\<rparr>"
    and "\<forall>r \<in> set (rows df3). cell_at df3 r (u ''station'') = Str label"
  with assms(2) show ?thesis by (auto simp: canonical_row_def)
qed (use assms(2) in simp_all)

text \<open>A no-break space at the end of the directive is stripped with the line.\<close>

lemma station_value_stripped:
  "station_value (u ''# station_name=Riga'' @ [160]) = u ''Riga''"
  by code_simp

text \<open>
  C9, as the code has it. The station label of a file is the value declared by the
  last line of its header block that holds \<^verbatim>\<open>station_name=\<close>, when that value is not
  empty; it is the stem of the path when the header block has no such line and also
  when the value declared is empty. On a line that is \<^verbatim>\<open># station_name=\<close> followed by a
  text the value is that text. Every record of the file carries the label in its first
  column, the station.
\<close>

theorem station_label_rule:
  "(read_header p lines = Inr (label, sep, cols) \<longrightarrow>
      label = (case filter declares_station (header_block lines) of
                 [] \<Rightarrow> path_stem p
               | d # ds \<Rightarrow>
                   if station_value (last (d # ds)) = [] then path_stem p
                   else station_value (last (d # ds)))
      \<and> (load_one num p lines = Inr out \<longrightarrow>
            columns out ! 0 = (u ''station'') \<and> (\<forall>r \<in> set (rows out). r ! 0 = Str label)))
   \<and> (strip line = (u ''# station_name='') @ v \<and> \<not> contains (u ''station_name='') v
        \<longrightarrow> station_value line = v)"
proof (intro conjI impI)
  assume h: "read_header p lines = Inr (label, sep, cols)"
  show "label = (case filter declares_station (header_block lines) of
                 [] \<Rightarrow> path_stem p
               | d # ds \<Rightarrow>
                   if station_value (last (d # ds)) = [] then path_stem p
                   else station_value (last (d # ds)))"
    unfolding read_header_station [OF h] station_label_def
    by (simp add: Let_def split: list.splits)
  assume l: "load_one num p lines = Inr out"
  from load_one_stamps_station [OF h l]
  show "columns out ! 0 = (u ''station'')" "\<forall>r \<in> set (rows out). r ! 0 = Str label"
    by (simp_all add: KEEP_COLS_def)
next
  assume "strip line = (u ''# station_name='') @ v \<and> \<not> contains (u ''station_name='') v"
  then show "station_value line = v" using station_value_plain by blast
qed

theorem station_label_rule_witness:
  "read_header (u ''data/riga_1925.txt'') [u ''# station_name=Riga University'', u ''# fields=date;present_weather_code'', u ''1925-03-04;3'']
     = Inr (u ''Riga University'', u '';'', [u ''date'', u ''present_weather_code''])
   \<and> load_one plain_decimal (u ''data/riga_1925.txt'')
         [u ''# station_name=Riga University'', u ''# fields=date;present_weather_code'', u ''1925-03-04;3'']
     = Inr \<lparr>columns = KEEP_COLS,
            rows = [[Str (u ''Riga University''),
                     TS \<lparr>year = 1925, month = 3, day = 4, hour = 0, minute = 0\<rparr>,
                     DateOf 1925 3 4, TimeOf 0 0, NaN, NaN, NaN, NaN, IntCode 3, NaN]]\<rparr>
   \<and> read_header (u ''data/riga_1925.txt'') [u ''# fields=date;present_weather_code'', u ''1925-03-04;3'']
     = Inr (u ''riga_1925'', u '';'', [u ''date'', u ''present_weather_code''])
   \<and> station_value (u ''# station_name=Riga University'') = (u ''Riga University'')
   \<and> columns \<lparr>columns = KEEP_COLS,
               rows = [[Str (u ''Riga University''),
                        TS \<lparr>year = 1925, month = 3, day = 4, hour = 0, minute = 0\<rparr>,
                        DateOf 1925 3 4, TimeOf 0 0, NaN, NaN, NaN, NaN, IntCode 3, NaN]]\<rparr> ! 0
       = (u ''station'')"
proof -
  have a: "read_header (u ''data/riga_1925.txt'') [u ''# station_name=Riga University'', u ''# fields=date;present_weather_code'', u ''1925-03-04;3'']
     = Inr (u ''Riga University'', u '';'', [u ''date'', u ''present_weather_code''])"
    by code_simp
  have b: "load_one plain_decimal (u ''data/riga_1925.txt'')
         [u ''# station_name=Riga University'', u ''# fields=date;present_weather_code'', u ''1925-03-04;3'']
     = Inr \<lparr>columns = KEEP_COLS,
            rows = [[Str (u ''Riga University''),
                     TS \<lparr>year = 1925, month = 3, day = 4, hour = 0, minute = 0\<rparr>,
                     DateOf 1925 3 4, TimeOf 0 0, NaN, NaN, NaN, NaN, IntCode 3, NaN]]\<rparr>"
    by code_simp
  have c: "read_header (u ''data/riga_1925.txt'') [u ''# fields=date;present_weather_code'', u ''1925-03-04;3'']
     = Inr (u ''riga_1925'', u '';'', [u ''date'', u ''present_weather_code''])"
    by code_simp
  have d: "strip (u ''# station_name=Riga University'') = (u ''# station_name='') @ (u ''Riga University'')
           \<and> \<not> contains (u ''station_name='') (u ''Riga University'')"
    by code_simp
  note T = station_label_rule
         [of "(u ''data/riga_1925.txt'')"
             "[u ''# station_name=Riga University'', u ''# fields=date;present_weather_code'', u ''1925-03-04;3'']"
             "(u ''Riga University'')" "(u '';'')" "[u ''date'', u ''present_weather_code'']" plain_decimal
             "\<lparr>columns = KEEP_COLS,
               rows = [[Str (u ''Riga University''),
                        TS \<lparr>year = 1925, month = 3, day = 4, hour = 0, minute = 0\<rparr>,
                        DateOf 1925 3 4, TimeOf 0 0, NaN, NaN, NaN, NaN, IntCode 3, NaN]]\<rparr>"
             "(u ''# station_name=Riga University'')" "(u ''Riga University'')"]
  from T d have e: "station_value (u ''# station_name=Riga University'') = (u ''Riga University'')"
    by blast
  from T a b have f: "columns \<lparr>columns = KEEP_COLS,
               rows = [[Str (u ''Riga University''),
                        TS \<lparr>year = 1925, month = 3, day = 4, hour = 0, minute = 0\<rparr>,
                        DateOf 1925 3 4, TimeOf 0 0, NaN, NaN, NaN, NaN, IntCode 3, NaN]]\<rparr> ! 0
       = (u ''station'')"
    by blast
  from a b c e f show ?thesis by (intro conjI)
qed

text \<open>
  C9 as the specification words it fails on the code: a file whose header holds the
  directive \<^verbatim>\<open># station_name=\<close> with nothing after it declares the empty value, and its
  station is the stem of the path, not the declared value; so the stem is the station
  of a file in which the directive is present.
\<close>

theorem station_empty_directive_counterexample:
  "declares_station (u ''# station_name='')
   \<and> station_value (u ''# station_name='') = []
   \<and> header_block [u ''# station_name='', u ''# fields=date''] = [u ''# station_name='', u ''# fields=date'']
   \<and> read_header (u ''data/riga.txt'') [u ''# station_name='', u ''# fields=date'']
        = Inr (u ''riga'', u '','', [u ''date''])
   \<and> path_stem (u ''data/riga.txt'') = (u ''riga'')"
  by code_simp

subsection \<open>The canonical columns\<close>

lemma load_one_header:
  assumes "load_one num p lines = Inr out"
  shows "\<exists>label sep cols. read_header p lines = Inr (label, sep, cols)"
proof (cases "read_header p lines")
  case (Inl e)
  with assms show ?thesis by (simp add: load_one_def)
next
  case (Inr r)
  then show ?thesis by (cases r) auto
qed

text \<open>A table that \<^verbatim>\<open>load_one\<close> returns has the ten canonical columns, in their order.\<close>

lemma load_one_columns:
  assumes "load_one num p lines = Inr out"
  shows "columns out = KEEP_COLS \<and> (\<forall>r \<in> set (rows out). length r = length KEEP_COLS)"
proof -
  from load_one_header [OF assms] obtain label sep cols
    where h: "read_header p lines = Inr (label, sep, cols)" by blast
  from load_one_cases [OF h, of num] show ?thesis
  proof (elim disjE exE conjE)
    fix df3
    assume "load_one num p lines =
        Inr \<lparr>columns = KEEP_COLS, rows = map (canonical_row num df3) (rows df3)\<rparr>"
    with assms show ?thesis by (auto simp: canonical_row_def KEEP_COLS_def)
  qed (use assms in simp_all)
qed

text \<open>
  In a table that \<^verbatim>\<open>load_one\<close> returns, a measurement, type or notes column that the file
  does not declare is missing on every row.
\<close>

lemma cell_at_absent: "k \<notin> set (columns df) \<Longrightarrow> cell_at df r k = NaN"
  by (simp add: cell_at_def index_of_None [THEN iffD2])

lemma load_one_absent_columns:
  assumes h: "read_header p lines = Inr (label, sep, cols)"
    and out: "load_one num p lines = Inr out"
    and r: "r \<in> set (rows out)"
  shows "(u ''t_max_c'' \<notin> set cols \<longrightarrow> r ! 4 = NaN)
       \<and> (u ''t_min_c'' \<notin> set cols \<longrightarrow> r ! 5 = NaN)
       \<and> (u ''precip_24h_mm'' \<notin> set cols \<longrightarrow> r ! 6 = NaN)
       \<and> (u ''precip_type'' \<notin> set cols \<longrightarrow> r ! 7 = NaN)
       \<and> (u ''notes'' \<notin> set cols \<longrightarrow> r ! 9 = NaN)"
  using load_one_cases [OF h, of num]
proof (elim disjE exE conjE)
  fix df3
  assume eq: "load_one num p lines =
        Inr \<lparr>columns = KEEP_COLS, rows = map (canonical_row num df3) (rows df3)\<rparr>"
    and c3: "set (columns df3) = set cols \<union> {(u ''timestamp''), u ''station''}"
  from eq out r obtain x where x: "r = canonical_row num df3 x" by auto
  have "k \<notin> set cols \<Longrightarrow> k \<noteq> (u ''timestamp'') \<Longrightarrow> k \<noteq> (u ''station'') \<Longrightarrow> cell_at df3 x k = NaN" for k
    using c3 by (intro cell_at_absent) simp
  then show ?thesis unfolding x canonical_row_def by simp
qed (use out in simp_all)

text \<open>It returns no table for a file that declares no weather-code column.\<close>

lemma load_one_needs_codes:
  assumes "read_header p lines = Inr (label, sep, cols)"
    and "(u ''present_weather_code'') \<notin> set cols"
  shows "\<exists>e. load_one num p lines = Inl e"
  using load_one_cases [OF assms(1), of num] assms(2) by blast

text \<open>
  C2. A table that \<^verbatim>\<open>load_one\<close> returns has exactly the ten canonical columns in the
  fixed order (\<open>load_one_columns\<close>), with the undeclared columns missing
  (\<open>load_one_absent_columns\<close>), but \<^verbatim>\<open>load_one\<close> returns no table for a file whose
  schema has no \<^verbatim>\<open>present_weather_code\<close> column (\<open>load_one_needs_codes\<close>): the cast of the
  codes raises. Here the file declares \<^verbatim>\<open>date\<close> and \<^verbatim>\<open>t_max_c\<close> and holds one well-formed
  row; the header is read, and loading the file ends in a TypeError instead of a table
  with a missing weather code.
\<close>

theorem load_one_without_codes_raises:
  "read_header (u ''data/riga.txt'') [u ''# station_name=Riga'', u ''# fields=date,t_max_c'', u ''1925-03-04,5'']
     = Inr (u ''Riga'', u '','', [u ''date'', u ''t_max_c''])
   \<and> load_one num (u ''data/riga.txt'') [u ''# station_name=Riga'', u ''# fields=date,t_max_c'', u ''1925-03-04,5'']
     = Inl (TypeError (u ''data type Int64 not understood''))"
  by code_simp

subsection \<open>Merging the tables\<close>

lemma load_each_frames:
  "load_each num files = Inr frames \<Longrightarrow>
     list_all2 (\<lambda>f t. load_one num (fst f) (snd f) = Inr t) files frames"
proof (induction files arbitrary: frames)
  case Nil
  then show ?case by simp
next
  case (Cons f fs)
  then show ?case by (auto split: sum.splits)
qed

lemma fold_add_new_known: "set xs \<subseteq> set acc \<Longrightarrow> fold add_new xs acc = acc"
  by (induction xs arbitrary: acc) (auto simp: add_new_def)

lemma fold_add_new_keep: "fold add_new KEEP_COLS [] = KEEP_COLS"
  by (simp add: KEEP_COLS_def add_new_def)

lemma canonical_columns_union:
  assumes "frames \<noteq> []" and "\<forall>f \<in> set frames. columns f = KEEP_COLS"
  shows "fold add_new (concat (map columns frames)) [] = KEEP_COLS"
proof -
  from assms obtain f fs where fr: "frames = f # fs" by (cases frames) auto
  with assms(2) have "columns f = KEEP_COLS" and rest: "set (concat (map columns fs)) \<subseteq> set KEEP_COLS"
    by auto
  then show ?thesis
    unfolding fr by (simp add: fold_add_new_keep fold_add_new_known)
qed

lemma ten_cells:
  assumes "length r = 10"
  shows "r = [r ! 0, r ! 1, r ! 2, r ! 3, r ! 4, r ! 5, r ! 6, r ! 7, r ! 8, r ! 9]"
proof (rule nth_equalityI)
  show "length r = length [r ! 0, r ! 1, r ! 2, r ! 3, r ! 4, r ! 5, r ! 6, r ! 7, r ! 8, r ! 9]"
    using assms by simp
  fix i assume "i < length r"
  with assms have "i \<in> {0, 1, 2, 3, 4, 5, 6, 7, 8, 9}" by auto
  then show "r ! i = [r ! 0, r ! 1, r ! 2, r ! 3, r ! 4, r ! 5, r ! 6, r ! 7, r ! 8, r ! 9] ! i"
    by auto
qed

lemma canonical_row_unchanged:
  assumes "columns f = KEEP_COLS" and "length r = length KEEP_COLS"
  shows "map (cell_at f r) KEEP_COLS = r"
proof -
  from assms(2) have len: "length r = 10" by (simp add: KEEP_COLS_def)
  have "map (cell_at f r) KEEP_COLS = [r ! 0, r ! 1, r ! 2, r ! 3, r ! 4, r ! 5, r ! 6, r ! 7, r ! 8, r ! 9]"
    by (simp add: cell_at_def assms(1) KEEP_COLS_def eval_nat_numeral)
  with ten_cells [OF len] show ?thesis by simp
qed

lemma concat_canonical_frames:
  assumes "frames \<noteq> []"
    and "\<forall>f \<in> set frames. columns f = KEEP_COLS \<and> (\<forall>r \<in> set (rows f). length r = length KEEP_COLS)"
  shows "concat_frames frames = Inr \<lparr>columns = KEEP_COLS, rows = concat (map rows frames)\<rparr>"
proof -
  have cols: "fold add_new (concat (map columns frames)) [] = KEEP_COLS"
    using assms by (intro canonical_columns_union) auto
  have eq: "map (\<lambda>f. map (\<lambda>r. map (cell_at f r) KEEP_COLS) (rows f)) frames = map rows frames"
  proof (rule map_cong [OF refl])
    fix f assume f: "f \<in> set frames"
    have "map (\<lambda>r. map (cell_at f r) KEEP_COLS) (rows f) = map (\<lambda>r. r) (rows f)"
      using assms(2) f by (intro map_cong [OF refl] canonical_row_unchanged) auto
    then show "map (\<lambda>r. map (cell_at f r) KEEP_COLS) (rows f) = rows f" by simp
  qed
  show ?thesis
    unfolding concat_frames_def Let_def cols eq using assms(1) by simp
qed

lemma index_of_keep:
  "index_of KEEP_COLS (u ''station'') = Some 0" "index_of KEEP_COLS (u ''timestamp'') = Some 1"
  by (simp_all add: KEEP_COLS_def)

lemma merge_canonical:
  "(case dropna_timestamp \<lparr>columns = KEEP_COLS, rows = rs\<rparr> of
      Inl e \<Rightarrow> Inl e
    | Inr kept \<Rightarrow> sort_values kept)
   = Inr \<lparr>columns = KEEP_COLS, rows = sort_key (row_key 0 1) (filter (\<lambda>r. r ! 1 \<noteq> NaN) rs)\<rparr>"
  by (simp add: dropna_timestamp_def sort_values_def index_of_keep [simplified])

text \<open>What \<^verbatim>\<open>load_all\<close> returns when it returns.\<close>

lemma load_all_result:
  assumes "load_all num files = Inr corpus"
  shows "\<exists>frames. load_each num files = Inr frames
     \<and> corpus = \<lparr>columns = KEEP_COLS,
                  rows = sort_key (row_key 0 1)
                           (filter (\<lambda>r. r ! 1 \<noteq> NaN) (concat (map rows frames)))\<rparr>"
proof -
  from assms obtain frames where le: "load_each num files = Inr frames"
    by (cases "load_each num files") (auto simp: load_all_def)
  have ne: "frames \<noteq> []"
    using assms le by (auto simp: load_all_def concat_frames_def)
  have canon: "\<forall>f \<in> set frames. columns f = KEEP_COLS \<and> (\<forall>r \<in> set (rows f). length r = length KEEP_COLS)"
  proof
    fix t assume "t \<in> set frames"
    with load_each_frames [OF le] obtain f where "load_one num (fst f) (snd f) = Inr t"
      by (auto simp: list_all2_conv_all_nth in_set_conv_nth)
    then show "columns t = KEEP_COLS \<and> (\<forall>r \<in> set (rows t). length r = length KEEP_COLS)"
      by (rule load_one_columns)
  qed
  have "load_all num files =
      Inr \<lparr>columns = KEEP_COLS,
           rows = sort_key (row_key 0 1) (filter (\<lambda>r. r ! 1 \<noteq> NaN) (concat (map rows frames)))\<rparr>"
    unfolding load_all_def le sum.case concat_canonical_frames [OF ne canon]
    by (rule merge_canonical)
  with assms le show ?thesis by simp
qed

text \<open>
  \<^verbatim>\<open>load_all\<close> returns a corpus exactly when it is given at least one file and
  \<^verbatim>\<open>load_one\<close> returns a table for every file.
\<close>

lemma load_each_returns:
  "(\<exists>frames. load_each num files = Inr frames)
     \<longleftrightarrow> (\<forall>f \<in> set files. \<exists>t. load_one num (fst f) (snd f) = Inr t)"
proof (induction files)
  case Nil
  show ?case by simp
next
  case (Cons f fs)
  show ?case
  proof (cases "load_one num (fst f) (snd f)")
    case (Inl e)
    then show ?thesis by auto
  next
    case (Inr t)
    show ?thesis
    proof (cases "load_each num fs")
      case (Inl e)
      with Inr Cons.IH show ?thesis by auto
    next
      case r: (Inr ts)
      with Inr Cons.IH show ?thesis by auto
    qed
  qed
qed

lemma load_all_returns_iff:
  "(\<exists>corpus. load_all num files = Inr corpus)
     \<longleftrightarrow> files \<noteq> [] \<and> (\<forall>f \<in> set files. \<exists>t. load_one num (fst f) (snd f) = Inr t)"
proof
  assume "\<exists>corpus. load_all num files = Inr corpus"
  then obtain corpus where c: "load_all num files = Inr corpus" by blast
  from load_all_result [OF c] obtain frames where le: "load_each num files = Inr frames" by blast
  have "files \<noteq> []"
    using c by (auto simp: load_all_def concat_frames_def)
  moreover from le load_each_returns [of num files]
  have "\<forall>f \<in> set files. \<exists>t. load_one num (fst f) (snd f) = Inr t" by blast
  ultimately show "files \<noteq> [] \<and> (\<forall>f \<in> set files. \<exists>t. load_one num (fst f) (snd f) = Inr t)"
    by blast
next
  assume h: "files \<noteq> [] \<and> (\<forall>f \<in> set files. \<exists>t. load_one num (fst f) (snd f) = Inr t)"
  with load_each_returns [of num files] obtain frames where le: "load_each num files = Inr frames"
    by blast
  note l2 = load_each_frames [OF le]
  from h l2 have ne: "frames \<noteq> []" by (cases files) auto
  have canon: "\<forall>f \<in> set frames. columns f = KEEP_COLS \<and> (\<forall>r \<in> set (rows f). length r = length KEEP_COLS)"
  proof
    fix t assume "t \<in> set frames"
    with l2 obtain f where "load_one num (fst f) (snd f) = Inr t"
      by (auto simp: list_all2_conv_all_nth in_set_conv_nth)
    then show "columns t = KEEP_COLS \<and> (\<forall>r \<in> set (rows t). length r = length KEEP_COLS)"
      by (rule load_one_columns)
  qed
  have "load_all num files =
      Inr \<lparr>columns = KEEP_COLS,
           rows = sort_key (row_key 0 1) (filter (\<lambda>r. r ! 1 \<noteq> NaN) (concat (map rows frames)))\<rparr>"
    unfolding load_all_def le sum.case concat_canonical_frames [OF ne canon]
    by (rule merge_canonical)
  then show "\<exists>corpus. load_all num files = Inr corpus" by blast
qed

lemma load_one_row_shape:
  assumes "load_one num p lines = Inr out" and "r \<in> set (rows out)"
  shows "(\<exists>s. r ! 0 = Str s) \<and> (r ! 1 = NaN \<or> (\<exists>dt. r ! 1 = TS dt))"
proof -
  from load_one_header [OF assms(1)] obtain label sep cols
    where h: "read_header p lines = Inr (label, sep, cols)" by blast
  from load_one_cases [OF h, of num] show ?thesis
  proof (elim disjE exE conjE)
    fix df3
    assume out: "load_one num p lines =
        Inr \<lparr>columns = KEEP_COLS, rows = map (canonical_row num df3) (rows df3)\<rparr>"
      and st: "\<forall>r \<in> set (rows df3). cell_at df3 r (u ''station'') = Str label"
      and ts: "\<forall>r \<in> set (rows df3). cell_at df3 r (u ''timestamp'') = NaN
                          \<or> (\<exists>dt. cell_at df3 r (u ''timestamp'') = TS dt)"
    from out assms obtain x where x: "x \<in> set (rows df3)" "r = canonical_row num df3 x"
      by auto
    from st ts x(1) have "cell_at df3 x (u ''station'') = Str label"
      "cell_at df3 x (u ''timestamp'') = NaN \<or> (\<exists>dt. cell_at df3 x (u ''timestamp'') = TS dt)"
      by blast+
    then show ?thesis unfolding x(2) canonical_row_def by auto
  qed (use assms(1) in simp_all)
qed

text \<open>
  C3. When \<^verbatim>\<open>load_all\<close> returns a corpus, every file has been loaded into a table, and
  the records of the corpus are exactly the records of these tables, taken in the
  order of the files, whose timestamp is not missing: the same records with the same
  multiplicities, so nothing is dropped or merged as a duplicate. Every record of the
  corpus has a station and a timestamp; the corpus is sorted by the pair of station and
  timestamp; and the records that share one such pair stand in the corpus in the order
  in which the concatenated tables hold them, the order of the files.
\<close>

theorem load_all_sorted_merge:
  assumes "load_all num files = Inr corpus"
  shows "\<exists>frames. list_all2 (\<lambda>f t. load_one num (fst f) (snd f) = Inr t) files frames
     \<and> columns corpus = KEEP_COLS
     \<and> mset (rows corpus) = mset (filter (\<lambda>r. r ! 1 \<noteq> NaN) (concat (map rows frames)))
     \<and> (\<forall>r \<in> set (rows corpus). \<exists>s dt. r ! 0 = Str s \<and> r ! 1 = TS dt)
     \<and> sorted (map (\<lambda>r. (station_key (r ! 0), timestamp_key (r ! 1))) (rows corpus))
     \<and> (\<forall>k. filter (\<lambda>r. (station_key (r ! 0), timestamp_key (r ! 1)) = k) (rows corpus)
            = filter (\<lambda>r. (station_key (r ! 0), timestamp_key (r ! 1)) = k)
                (filter (\<lambda>r. r ! 1 \<noteq> NaN) (concat (map rows frames))))"
proof -
  from load_all_result [OF assms] obtain frames where
    le: "load_each num files = Inr frames"
    and corpus: "corpus = \<lparr>columns = KEEP_COLS,
                  rows = sort_key (row_key 0 1)
                           (filter (\<lambda>r. r ! 1 \<noteq> NaN) (concat (map rows frames)))\<rparr>"
    by blast
  note l2 = load_each_frames [OF le]
  have key: "row_key 0 1 = (\<lambda>r. (station_key (r ! 0), timestamp_key (r ! 1)))"
    by (rule ext) (simp add: row_key_def)
  have shape: "\<exists>s dt. r ! 0 = Str s \<and> r ! 1 = TS dt" if "r \<in> set (rows corpus)" for r
  proof -
    from that have r: "r \<in> set (concat (map rows frames))" "r ! 1 \<noteq> NaN"
      by (simp_all add: corpus)
    then obtain t where t: "t \<in> set frames" "r \<in> set (rows t)" by auto
    with l2 obtain f where "load_one num (fst f) (snd f) = Inr t"
      by (auto simp: list_all2_conv_all_nth in_set_conv_nth)
    from load_one_row_shape [OF this t(2)] r(2) show ?thesis by auto
  qed
  have "columns corpus = KEEP_COLS" by (simp add: corpus)
  moreover have "mset (rows corpus) = mset (filter (\<lambda>r. r ! 1 \<noteq> NaN) (concat (map rows frames)))"
    by (simp add: corpus)
  moreover have "sorted (map (\<lambda>r. (station_key (r ! 0), timestamp_key (r ! 1))) (rows corpus))"
  proof -
    have "sorted (map (row_key 0 1) (rows corpus))" by (simp add: corpus)
    then show ?thesis unfolding key .
  qed
  moreover have "filter (\<lambda>r. (station_key (r ! 0), timestamp_key (r ! 1)) = k) (rows corpus)
            = filter (\<lambda>r. (station_key (r ! 0), timestamp_key (r ! 1)) = k)
                (filter (\<lambda>r. r ! 1 \<noteq> NaN) (concat (map rows frames)))" for k
  proof -
    have "filter (\<lambda>r. row_key 0 1 r = k) (rows corpus)
            = filter (\<lambda>r. row_key 0 1 r = k)
                (filter (\<lambda>r. r ! 1 \<noteq> NaN) (concat (map rows frames)))"
      by (simp add: corpus sort_key_stable)
    then show ?thesis unfolding key .
  qed
  ultimately show ?thesis using l2 shape by blast
qed

theorem load_all_sorted_merge_witness:
  "load_all plain_decimal
     [(u ''b.txt'', [u ''# station_name=B'', u ''# fields=date;present_weather_code;notes'',
                   u ''1925-03-04;3;first'', u ''bad;4;dropped'', u ''1925-03-02;5;early'']),
      (u ''a.txt'', [u ''# station_name=A'', u ''# fields=present_weather_code;date'', u ''1;1925-03-09'']),
      (u ''b2.txt'', [u ''# station_name=B'', u ''# fields=notes;present_weather_code;date'',
                    u ''second;6;04.03.1925''])]
   = Inr \<lparr>columns = KEEP_COLS,
          rows =
            [[Str (u ''A''), TS \<lparr>year = 1925, month = 3, day = 9, hour = 0, minute = 0\<rparr>,
              DateOf 1925 3 9, TimeOf 0 0, NaN, NaN, NaN, NaN, IntCode 1, NaN],
             [Str (u ''B''), TS \<lparr>year = 1925, month = 3, day = 2, hour = 0, minute = 0\<rparr>,
              DateOf 1925 3 2, TimeOf 0 0, NaN, NaN, NaN, NaN, IntCode 5, Str (u ''early'')],
             [Str (u ''B''), TS \<lparr>year = 1925, month = 3, day = 4, hour = 0, minute = 0\<rparr>,
              DateOf 1925 3 4, TimeOf 0 0, NaN, NaN, NaN, NaN, IntCode 3, Str (u ''first'')],
             [Str (u ''B''), TS \<lparr>year = 1925, month = 3, day = 4, hour = 0, minute = 0\<rparr>,
              DateOf 1925 3 4, TimeOf 0 0, NaN, NaN, NaN, NaN, IntCode 6, Str (u ''second'')]]\<rparr>
   \<and> sorted (map (\<lambda>r. (station_key (r ! 0), timestamp_key (r ! 1)))
        [[Str (u ''A''), TS \<lparr>year = 1925, month = 3, day = 9, hour = 0, minute = 0\<rparr>,
          DateOf 1925 3 9, TimeOf 0 0, NaN, NaN, NaN, NaN, IntCode 1, NaN],
         [Str (u ''B''), TS \<lparr>year = 1925, month = 3, day = 2, hour = 0, minute = 0\<rparr>,
          DateOf 1925 3 2, TimeOf 0 0, NaN, NaN, NaN, NaN, IntCode 5, Str (u ''early'')],
         [Str (u ''B''), TS \<lparr>year = 1925, month = 3, day = 4, hour = 0, minute = 0\<rparr>,
          DateOf 1925 3 4, TimeOf 0 0, NaN, NaN, NaN, NaN, IntCode 3, Str (u ''first'')],
         [Str (u ''B''), TS \<lparr>year = 1925, month = 3, day = 4, hour = 0, minute = 0\<rparr>,
          DateOf 1925 3 4, TimeOf 0 0, NaN, NaN, NaN, NaN, IntCode 6, Str (u ''second'')]])"
proof -
  have run: "load_all plain_decimal
     [(u ''b.txt'', [u ''# station_name=B'', u ''# fields=date;present_weather_code;notes'',
                   u ''1925-03-04;3;first'', u ''bad;4;dropped'', u ''1925-03-02;5;early'']),
      (u ''a.txt'', [u ''# station_name=A'', u ''# fields=present_weather_code;date'', u ''1;1925-03-09'']),
      (u ''b2.txt'', [u ''# station_name=B'', u ''# fields=notes;present_weather_code;date'',
                    u ''second;6;04.03.1925''])]
   = Inr \<lparr>columns = KEEP_COLS,
          rows =
            [[Str (u ''A''), TS \<lparr>year = 1925, month = 3, day = 9, hour = 0, minute = 0\<rparr>,
              DateOf 1925 3 9, TimeOf 0 0, NaN, NaN, NaN, NaN, IntCode 1, NaN],
             [Str (u ''B''), TS \<lparr>year = 1925, month = 3, day = 2, hour = 0, minute = 0\<rparr>,
              DateOf 1925 3 2, TimeOf 0 0, NaN, NaN, NaN, NaN, IntCode 5, Str (u ''early'')],
             [Str (u ''B''), TS \<lparr>year = 1925, month = 3, day = 4, hour = 0, minute = 0\<rparr>,
              DateOf 1925 3 4, TimeOf 0 0, NaN, NaN, NaN, NaN, IntCode 3, Str (u ''first'')],
             [Str (u ''B''), TS \<lparr>year = 1925, month = 3, day = 4, hour = 0, minute = 0\<rparr>,
              DateOf 1925 3 4, TimeOf 0 0, NaN, NaN, NaN, NaN, IntCode 6, Str (u ''second'')]]\<rparr>"
    by code_simp
  from load_all_sorted_merge [OF run]
  have "sorted (map (\<lambda>r. (station_key (r ! 0), timestamp_key (r ! 1)))
        (rows \<lparr>columns = KEEP_COLS,
          rows =
            [[Str (u ''A''), TS \<lparr>year = 1925, month = 3, day = 9, hour = 0, minute = 0\<rparr>,
              DateOf 1925 3 9, TimeOf 0 0, NaN, NaN, NaN, NaN, IntCode 1, NaN],
             [Str (u ''B''), TS \<lparr>year = 1925, month = 3, day = 2, hour = 0, minute = 0\<rparr>,
              DateOf 1925 3 2, TimeOf 0 0, NaN, NaN, NaN, NaN, IntCode 5, Str (u ''early'')],
             [Str (u ''B''), TS \<lparr>year = 1925, month = 3, day = 4, hour = 0, minute = 0\<rparr>,
              DateOf 1925 3 4, TimeOf 0 0, NaN, NaN, NaN, NaN, IntCode 3, Str (u ''first'')],
             [Str (u ''B''), TS \<lparr>year = 1925, month = 3, day = 4, hour = 0, minute = 0\<rparr>,
              DateOf 1925 3 4, TimeOf 0 0, NaN, NaN, NaN, NaN, IntCode 6, Str (u ''second'')]]\<rparr>))"
    by blast
  then have "sorted (map (\<lambda>r. (station_key (r ! 0), timestamp_key (r ! 1)))
        [[Str (u ''A''), TS \<lparr>year = 1925, month = 3, day = 9, hour = 0, minute = 0\<rparr>,
          DateOf 1925 3 9, TimeOf 0 0, NaN, NaN, NaN, NaN, IntCode 1, NaN],
         [Str (u ''B''), TS \<lparr>year = 1925, month = 3, day = 2, hour = 0, minute = 0\<rparr>,
          DateOf 1925 3 2, TimeOf 0 0, NaN, NaN, NaN, NaN, IntCode 5, Str (u ''early'')],
         [Str (u ''B''), TS \<lparr>year = 1925, month = 3, day = 4, hour = 0, minute = 0\<rparr>,
          DateOf 1925 3 4, TimeOf 0 0, NaN, NaN, NaN, NaN, IntCode 3, Str (u ''first'')],
         [Str (u ''B''), TS \<lparr>year = 1925, month = 3, day = 4, hour = 0, minute = 0\<rparr>,
          DateOf 1925 3 4, TimeOf 0 0, NaN, NaN, NaN, NaN, IntCode 6, Str (u ''second'')]])"
    by (simp only: frame.simps)
  with run show ?thesis by (intro conjI)
qed

end
